theory Spec2Isabelle
  imports Complex_Main "HOL-Library.Sublist" "HOL-Library.Multiset"
begin

section \<open>JavaScript numbers\<close>

text \<open>
  A JavaScript Number is an IEEE-754 binary64 value. A finite value is kept as the
  rational it denotes; every arithmetic operation rounds its exact result to the nearest
  binary64 value, ties to even. The two zeros are not told apart (no operation of
  \<^verbatim>\<open>merit.js\<close> observes the sign of a zero: its divisors are the constants 144 and
  100000000).
\<close>

datatype number = Fin rat | PInf | NInf | NaN

text \<open>The number of binary digits of a positive integer.\<close>

function bitlen :: "int \<Rightarrow> nat" where
  "bitlen a = (if a \<le> 0 then 0 else Suc (bitlen (a div 2)))"
  by pat_completeness auto
termination
  by (relation "measure nat") auto

declare bitlen.simps [simp del]

definition pow2 :: "int \<Rightarrow> rat" where
  "pow2 k = (if 0 \<le> k then 2 ^ nat k else 1 / 2 ^ nat (- k))"

text \<open>The binary exponent of a positive rational: \<open>pow2 (ilog2 x) \<le> x < pow2 (ilog2 x + 1)\<close>.\<close>

definition ilog2 :: "rat \<Rightarrow> int" where
  "ilog2 x = (let (a, b) = quotient_of x;
                  k = int (bitlen a) - int (bitlen b)
              in if pow2 k \<le> x then k else k - 1)"

definition round_half_even :: "rat \<Rightarrow> int" where
  "round_half_even x = (let f = \<lfloor>x\<rfloor>; d = x - of_int f
     in if d < 1 / 2 then f else if 1 / 2 < d then f + 1
        else if even f then f else f + 1)"

text \<open>
  Rounding to binary64: 53 significant bits, the least exponent of the last bit is
  \<open>-1074\<close> (subnormal numbers), and a rounded magnitude of \<open>2 ^ 1024\<close> or more is an
  infinity.
\<close>

definition round_double :: "rat \<Rightarrow> number" where
  "round_double x = (if x = 0 then Fin 0 else
     let e = ilog2 \<bar>x\<bar>;
         q = max (e - 52) (- 1074);
         r = of_int (round_half_even (x / pow2 q)) * pow2 q
     in if 2 ^ 1024 \<le> \<bar>r\<bar> then (if 0 < x then PInf else NInf) else Fin r)"

fun fneg :: "number \<Rightarrow> number" where
  "fneg (Fin a) = Fin (- a)"
| "fneg PInf = NInf"
| "fneg NInf = PInf"
| "fneg NaN = NaN"

fun fadd :: "number \<Rightarrow> number \<Rightarrow> number" where
  "fadd NaN _ = NaN"
| "fadd _ NaN = NaN"
| "fadd PInf NInf = NaN"
| "fadd NInf PInf = NaN"
| "fadd PInf _ = PInf"
| "fadd _ PInf = PInf"
| "fadd NInf _ = NInf"
| "fadd _ NInf = NInf"
| "fadd (Fin a) (Fin b) = round_double (a + b)"

definition fsub :: "number \<Rightarrow> number \<Rightarrow> number" where
  "fsub a b = fadd a (fneg b)"

text \<open>The sign of a number, as \<open>-1\<close>, \<open>0\<close> or \<open>1\<close> (\<open>NaN\<close> has none).\<close>

fun fsign :: "number \<Rightarrow> int" where
  "fsign (Fin a) = (if a < 0 then - 1 else if a = 0 then 0 else 1)"
| "fsign PInf = 1"
| "fsign NInf = - 1"
| "fsign NaN = 0"

definition inf_of_sign :: "int \<Rightarrow> number" where
  "inf_of_sign s = (if s < 0 then NInf else PInf)"

fun fmul :: "number \<Rightarrow> number \<Rightarrow> number" where
  "fmul NaN _ = NaN"
| "fmul _ NaN = NaN"
| "fmul (Fin a) (Fin b) = round_double (a * b)"
| "fmul x y = (if fsign x * fsign y = 0 then NaN else inf_of_sign (fsign x * fsign y))"

text \<open>
  Division. A zero divisor is read as \<open>+0\<close>; \<^verbatim>\<open>merit.js\<close> divides by 144 and by
  100000000 only.
\<close>

fun fdiv :: "number \<Rightarrow> number \<Rightarrow> number" where
  "fdiv NaN _ = NaN"
| "fdiv _ NaN = NaN"
| "fdiv (Fin a) (Fin b) =
     (if b = 0 then (if a = 0 then NaN else inf_of_sign (fsign (Fin a)))
      else round_double (a / b))"
| "fdiv (Fin a) _ = Fin 0"
| "fdiv x (Fin b) = inf_of_sign (fsign x * (if b < 0 then - 1 else 1))"
| "fdiv _ _ = NaN"

section \<open>JavaScript values\<close>

text \<open>
  Primitive values. The fields of the records the library reads (UTXOs, history entries,
  transaction data) hold primitives.
\<close>

datatype prim = Undefined | Null | Bool bool | Num number | Str string

fun truthy :: "prim \<Rightarrow> bool" where
  "truthy Undefined = False"
| "truthy Null = False"
| "truthy (Bool b) = b"
| "truthy (Num n) = (n \<noteq> Fin 0 \<and> n \<noteq> NaN)"
| "truthy (Str s) = (s \<noteq> [])"

text \<open>\<^verbatim>\<open>a === b\<close> on primitives: equal type and value, and \<open>NaN\<close> differs from itself.\<close>

definition strict_eq :: "prim \<Rightarrow> prim \<Rightarrow> bool" where
  "strict_eq a b = (a = b \<and> a \<noteq> Num NaN)"

text \<open>
  \<^verbatim>\<open>ToNumber\<close> and \<^verbatim>\<open>ToString\<close> on primitives. Parsing a string as a number and
  printing a number are left to the parameters \<open>s2n\<close> and \<open>n2s\<close> (the language's
  \<^verbatim>\<open>StringToNumber\<close> and \<^verbatim>\<open>Number::toString\<close>): every result below holds for
  whatever they compute.
\<close>

fun ToNumber :: "(string \<Rightarrow> number) \<Rightarrow> prim \<Rightarrow> number" where
  "ToNumber s2n Undefined = NaN"
| "ToNumber s2n Null = Fin 0"
| "ToNumber s2n (Bool b) = (if b then Fin 1 else Fin 0)"
| "ToNumber s2n (Num n) = n"
| "ToNumber s2n (Str s) = s2n s"

fun ToString :: "(number \<Rightarrow> string) \<Rightarrow> prim \<Rightarrow> string" where
  "ToString n2s Undefined = ''undefined''"
| "ToString n2s Null = ''null''"
| "ToString n2s (Bool b) = (if b then ''true'' else ''false'')"
| "ToString n2s (Num n) = n2s n"
| "ToString n2s (Str s) = s"

text \<open>\<^verbatim>\<open>a + b\<close> on primitives: concatenation when either side is a string.\<close>

fun is_Str :: "prim \<Rightarrow> bool" where
  "is_Str (Str s) = True"
| "is_Str _ = False"

definition js_plus :: "(string \<Rightarrow> number) \<Rightarrow> (number \<Rightarrow> string) \<Rightarrow> prim \<Rightarrow> prim \<Rightarrow> prim" where
  "js_plus s2n n2s a b =
     (if is_Str a \<or> is_Str b then Str (ToString n2s a @ ToString n2s b)
      else Num (fadd (ToNumber s2n a) (ToNumber s2n b)))"

section \<open>Records\<close>

text \<open>
  A UTXO as the wallet returns it, and as \<^verbatim>\<open>calcMerit\<close> extends it with \<open>age\<close> and
  \<open>merit\<close>. A property that is absent reads as \<open>Undefined\<close>; \<open>other\<close> holds every
  property the library never touches. An entry of an address's transaction history is a
  record of the same shape (\<open>tx_hash\<close> and \<open>height\<close>; \<^verbatim>\<open>findTokenParent\<close> adds
  \<open>tx_pos\<close>). The JavaScript property \<^verbatim>\<open>value\<close> is the field \<open>utxo_value\<close>.
\<close>

record utxo =
  tx_hash :: prim
  tx_pos :: prim
  height :: prim
  utxo_value :: prim
  tokenId :: prim
  tokenQty :: prim
  age :: prim
  merit :: prim
  other :: "(string \<times> prim) list"

text \<open>What an array element or a function result can be: a primitive or an object.\<close>

datatype jsval = Prim prim | Obj utxo

text \<open>The argument of \<^verbatim>\<open>calcMerit\<close>: an array of values, or a value that is no array.\<close>

datatype jsarg = NotArray jsval | Array "jsval list"

text \<open>
  The library throws \<^verbatim>\<open>new Error(message)\<close>; the runtime throws a \<^verbatim>\<open>TypeError\<close>
  on a property read of \<^verbatim>\<open>undefined\<close> or \<^verbatim>\<open>null\<close>, on a call of a value that is
  no function, and (class bodies are strict code) on a property write to a primitive.
  A collaborator fails with an error value of its own choice.
\<close>

datatype error = Error string | TypeError

fun truthy_val :: "jsval \<Rightarrow> bool" where
  "truthy_val (Obj r) = True"
| "truthy_val (Prim p) = truthy p"

text \<open>
  \<^verbatim>\<open>v.f\<close> for a field \<open>f\<close> of the records: it throws on \<^verbatim>\<open>undefined\<close> and
  \<^verbatim>\<open>null\<close>, and it is \<^verbatim>\<open>undefined\<close> on every other primitive (\<^verbatim>\<open>false.tx_hash\<close>
  is \<^verbatim>\<open>undefined\<close>).
\<close>

fun get_prop :: "(utxo \<Rightarrow> prim) \<Rightarrow> jsval \<Rightarrow> error + prim" where
  "get_prop f (Obj r) = Inr (f r)"
| "get_prop f (Prim Undefined) = Inl TypeError"
| "get_prop f (Prim Null) = Inl TypeError"
| "get_prop f (Prim p) = Inr Undefined"

text \<open>\<^verbatim>\<open>elem.age = a; elem.merit = m\<close> (lines 146-147).\<close>

fun set_age_merit :: "prim \<Rightarrow> prim \<Rightarrow> jsval \<Rightarrow> error + utxo" where
  "set_age_merit a m (Obj r) = Inr (r\<lparr>age := a, merit := m\<rparr>)"
| "set_age_merit a m (Prim p) = Inl TypeError"

text \<open>One input of a transaction, and the transaction data \<^verbatim>\<open>getTxData\<close> returns.\<close>

record vin_entry =
  vin_txid :: prim
  vin_vout :: prim

record txdata =
  tx_tokenId :: prim
  isValidSlp :: prim
  vin :: "vin_entry list"

text \<open>
  The result of \<^verbatim>\<open>wallet.getUtxos\<close>: \<^verbatim>\<open>utxos.bchUtxos\<close> and
  \<^verbatim>\<open>utxos.slpUtxos.type1.tokens\<close>.
\<close>

record utxo_set =
  bchUtxos :: "utxo list"
  slp_type1_tokens :: "utxo list"

record env_vars =
  MERIT_AGE :: prim
  VERBOSE_LOG :: prim

text \<open>
  An instance of the class \<^verbatim>\<open>Merit\<close>: its configuration and its collaborators.
  \<open>env\<close> is \<open>None\<close> when the constructor was given no \<^verbatim>\<open>env\<close>. The wallet and
  \<^verbatim>\<open>bch-js\<close> are not part of the library: each call is a function that returns a
  value or fails. \<open>floor2\<close> is \<^verbatim>\<open>bchjs.Util.floor2\<close>.
\<close>

record merit_lib =
  env :: "env_vars option"
  toCashAddress :: "prim \<Rightarrow> error + prim"
  getBlockCount :: "error + number"
  floor2 :: "number \<Rightarrow> error + number"
  getUtxos :: "prim \<Rightarrow> error + utxo_set"
  getTxData :: "prim \<Rightarrow> error + txdata list"
  getTransactions :: "prim \<Rightarrow> error + utxo list"
  StringToNumber :: "string \<Rightarrow> number"
  NumberToString :: "number \<Rightarrow> string"

text \<open>Sequencing of calls that may throw, and of calls that may also not return.\<close>

definition bindE :: "error + 'a \<Rightarrow> ('a \<Rightarrow> error + 'b) \<Rightarrow> error + 'b" where
  "bindE m f = (case m of Inl e \<Rightarrow> Inl e | Inr x \<Rightarrow> f x)"

definition bindP :: "(error + 'a) option \<Rightarrow> ('a \<Rightarrow> (error + 'b) option) \<Rightarrow> (error + 'b) option" where
  "bindP m f = (case m of None \<Rightarrow> None | Some (Inl e) \<Rightarrow> Some (Inl e) | Some (Inr x) \<Rightarrow> f x)"

section \<open>UtxoSelector: \<^verbatim>\<open>getTokenUtxos\<close>\<close>

text \<open>
  \<^verbatim>\<open>tokens.filter(elem => elem.tokenId && elem.tokenId.includes(tokenId))\<close> (lines
  58-60), for a truthy \<open>tokId\<close>. An element whose \<open>tokenId\<close> is falsy is dropped; on a
  string, \<^verbatim>\<open>includes\<close> is substring containment of \<^verbatim>\<open>ToString(tokenId)\<close>; a truthy
  \<open>tokenId\<close> that is no string has no method \<^verbatim>\<open>includes\<close>, and the call throws.
\<close>

fun token_filter :: "(number \<Rightarrow> string) \<Rightarrow> prim \<Rightarrow> utxo list \<Rightarrow> error + utxo list" where
  "token_filter n2s tokId [] = Inr []"
| "token_filter n2s tokId (elem # rest) =
     (if \<not> truthy (tokenId elem) then token_filter n2s tokId rest
      else (case tokenId elem of
              Str s \<Rightarrow> bindE (token_filter n2s tokId rest)
                 (\<lambda>r. Inr (if sublist (ToString n2s tokId) s then elem # r else r))
            | _ \<Rightarrow> Inl TypeError))"

definition getTokenUtxos :: "merit_lib \<Rightarrow> prim \<Rightarrow> prim \<Rightarrow> error + utxo list" where
  "getTokenUtxos L address tokId =
     bindE (toCashAddress L address) (\<lambda>addr.
     bindE (getUtxos L addr) (\<lambda>utxos.
       (case env L of
          None \<Rightarrow> Inl TypeError
        | Some e \<Rightarrow>
            (if truthy tokId then token_filter (NumberToString L) tokId (slp_type1_tokens utxos)
             else Inr (filter (\<lambda>elem. \<not> truthy (tokenId elem)) (bchUtxos utxos))))))"

section \<open>ParentMatcher: \<^verbatim>\<open>findTokenParent\<close>\<close>

text \<open>
  The loops of lines 236-271 run on the objects of the transaction history, which they
  update in place (\<^verbatim>\<open>thisUtxo.tx_pos = parentUtxos[i].vout\<close>), and \<^verbatim>\<open>parentInfo\<close> is
  a reference to one of them. The state is the array of history objects and the index
  \<^verbatim>\<open>parentInfo\<close> refers to (\<open>None\<close> while it is \<^verbatim>\<open>false\<close>).
\<close>

type_synonym fp_state = "utxo list \<times> nat option"

text \<open>The test of line 264.\<close>

definition valid_parent :: "prim \<Rightarrow> txdata \<Rightarrow> bool" where
  "valid_parent childTokenId d = (truthy (isValidSlp d) \<and> strict_eq childTokenId (tx_tokenId d))"

text \<open>The inner loop (lines 249-269) over the indices of the matching history objects.\<close>

fun match_loop :: "merit_lib \<Rightarrow> prim \<Rightarrow> vin_entry \<Rightarrow> nat list \<Rightarrow> fp_state \<Rightarrow> error + fp_state" where
  "match_loop L childTokenId pu [] st = Inr st"
| "match_loop L childTokenId pu (j # js) st =
     bindE (getTxData L (tx_hash (fst st ! j))) (\<lambda>thisTxData.
       (case thisTxData of
          [] \<Rightarrow> Inl TypeError
        | d # _ \<Rightarrow>
            match_loop L childTokenId pu js
              ((fst st)[j := (fst st ! j)\<lparr>tx_pos := vin_vout pu\<rparr>],
               if valid_parent childTokenId d then Some j else snd st)))"

text \<open>\<^verbatim>\<open>txHistory.filter(elem => elem.tx_hash === parentTxid)\<close>, as indices (line 241).\<close>

definition matches :: "utxo list \<Rightarrow> prim \<Rightarrow> nat list" where
  "matches txHistory parentTxid =
     filter (\<lambda>j. strict_eq (tx_hash (txHistory ! j)) parentTxid) [0..<length txHistory]"

text \<open>The outer loop (lines 236-271) over the inputs of the transaction.\<close>

fun parent_loop :: "merit_lib \<Rightarrow> prim \<Rightarrow> vin_entry list \<Rightarrow> fp_state \<Rightarrow> error + fp_state" where
  "parent_loop L childTokenId [] st = Inr st"
| "parent_loop L childTokenId (pu # pus) st =
     bindE (match_loop L childTokenId pu (matches (fst st) (vin_txid pu)) st)
       (\<lambda>st'. parent_loop L childTokenId pus st')"

definition findTokenParent :: "merit_lib \<Rightarrow> prim \<Rightarrow> prim \<Rightarrow> error + jsval" where
  "findTokenParent L txid addr =
     bindE (getTxData L txid) (\<lambda>txs.
       (case txs of
          [] \<Rightarrow> Inl TypeError
        | txData # _ \<Rightarrow>
            bindE (getTransactions L addr) (\<lambda>txHistory.
            bindE (parent_loop L (tx_tokenId txData) (vin txData) (txHistory, None)) (\<lambda>st.
              Inr (case snd st of
                     None \<Rightarrow> Prim (Bool False)
                   | Some j \<Rightarrow> Obj (fst st ! j))))))"

section \<open>AncestryWalker: \<^verbatim>\<open>getParentAge\<close>\<close>

text \<open>
  The loop of lines 171-180, from the state \<open>(txid, oldestUtxo)\<close>. It need not return:
  \<open>None\<close> is the walk that runs forever.
\<close>

partial_function (option) getParentAge_loop ::
  "merit_lib \<Rightarrow> prim \<Rightarrow> prim \<Rightarrow> jsval \<Rightarrow> (error + jsval) option" where
  "getParentAge_loop L txid addr oldestUtxo =
     (if truthy txid then
        (case findTokenParent L txid addr of
           Inl e \<Rightarrow> Some (Inl e)
         | Inr parentUtxo \<Rightarrow>
             (case get_prop tx_hash parentUtxo of
                Inl e \<Rightarrow> Some (Inl e)
              | Inr txid' \<Rightarrow>
                  getParentAge_loop L txid' addr
                    (if truthy_val parentUtxo then parentUtxo else oldestUtxo)))
      else Some (Inr oldestUtxo))"

declare getParentAge_loop.simps [code]

definition getParentAge :: "merit_lib \<Rightarrow> prim \<Rightarrow> prim \<Rightarrow> (error + jsval) option" where
  "getParentAge L txid addr = getParentAge_loop L txid addr (Prim (Bool False))"

text \<open>
  The same loop with a bound on the number of calls of \<^verbatim>\<open>findTokenParent\<close>: \<open>None\<close>
  when \<open>n\<close> calls do not bring the walk to its end.
\<close>

fun getParentAge_fuel :: "nat \<Rightarrow> merit_lib \<Rightarrow> prim \<Rightarrow> prim \<Rightarrow> jsval \<Rightarrow> (error + jsval) option" where
  "getParentAge_fuel 0 L txid addr oldestUtxo =
     (if truthy txid then None else Some (Inr oldestUtxo))"
| "getParentAge_fuel (Suc n) L txid addr oldestUtxo =
     (if truthy txid then
        (case findTokenParent L txid addr of
           Inl e \<Rightarrow> Some (Inl e)
         | Inr parentUtxo \<Rightarrow>
             (case get_prop tx_hash parentUtxo of
                Inl e \<Rightarrow> Some (Inl e)
              | Inr txid' \<Rightarrow>
                  getParentAge_fuel n L txid' addr
                    (if truthy_val parentUtxo then parentUtxo else oldestUtxo)))
      else Some (Inr oldestUtxo))"

section \<open>MeritCalculator: \<^verbatim>\<open>calcMerit\<close>\<close>

definition aging :: "env_vars \<Rightarrow> bool" where
  "aging e = strict_eq (MERIT_AGE e) (Str ''1'')"

text \<open>Lines 121-138: the age of one element when \<^verbatim>\<open>MERIT_AGE\<close> is \<^verbatim>\<open>'1'\<close>.\<close>

definition calc_age :: "merit_lib \<Rightarrow> number \<Rightarrow> prim \<Rightarrow> jsval \<Rightarrow> (error + number) option" where
  "calc_age L currentBlockHeight bchAddr elem =
     bindP (Some (get_prop height elem)) (\<lambda>h.
     bindP (Some (get_prop tx_hash elem)) (\<lambda>th.
     bindP (getParentAge L th bchAddr) (\<lambda>parentUtxo.
     bindP (Some (if truthy_val parentUtxo then get_prop height parentUtxo else Inr h)) (\<lambda>h'.
     bindP (Some (floor2 L (fdiv (fsub currentBlockHeight (ToNumber (StringToNumber L) h')) (Fin 144)))) (\<lambda>a.
       Some (Inr (if strict_eq h (Num (Fin 0)) then Fin 0 else a)))))))"

text \<open>Line 142: the merit of one element before aging.\<close>

definition unit_merit :: "merit_lib \<Rightarrow> prim \<Rightarrow> jsval \<Rightarrow> error + number" where
  "unit_merit L tokId elem =
     (if truthy tokId then bindE (get_prop tokenQty elem) (\<lambda>q. Inr (ToNumber (StringToNumber L) q))
      else bindE (get_prop utxo_value elem)
             (\<lambda>v. Inr (fdiv (ToNumber (StringToNumber L) v) (Fin 100000000))))"

text \<open>One pass of the loop body (lines 116-149); \<open>ag\<close> is \<^verbatim>\<open>this.env.MERIT_AGE === '1'\<close>.\<close>

definition calc_elem ::
  "merit_lib \<Rightarrow> bool \<Rightarrow> number \<Rightarrow> prim \<Rightarrow> prim \<Rightarrow> jsval \<Rightarrow> (error + utxo) option" where
  "calc_elem L ag currentBlockHeight bchAddr tokId elem =
     bindP (if ag then calc_age L currentBlockHeight bchAddr elem else Some (Inr (Fin 0))) (\<lambda>a.
     bindP (Some (unit_merit L tokId elem)) (\<lambda>m.
       Some (set_age_merit (Num a) (Num (if ag then fmul m a else m)) elem)))"

fun calc_loop ::
  "merit_lib \<Rightarrow> bool \<Rightarrow> number \<Rightarrow> prim \<Rightarrow> prim \<Rightarrow> jsval list \<Rightarrow> (error + utxo list) option" where
  "calc_loop L ag currentBlockHeight bchAddr tokId [] = Some (Inr [])"
| "calc_loop L ag currentBlockHeight bchAddr tokId (elem # rest) =
     bindP (calc_elem L ag currentBlockHeight bchAddr tokId elem) (\<lambda>u.
     bindP (calc_loop L ag currentBlockHeight bchAddr tokId rest) (\<lambda>us.
       Some (Inr (u # us))))"

definition calcMerit :: "merit_lib \<Rightarrow> jsarg \<Rightarrow> prim \<Rightarrow> prim \<Rightarrow> (error + utxo list) option" where
  "calcMerit L hydratedUtxos address tokId =
     (case hydratedUtxos of
        NotArray v \<Rightarrow> Some (Inl (Error ''Input hydratedUtxo must be an array''))
      | Array elems \<Rightarrow>
          bindP (Some (toCashAddress L address)) (\<lambda>bchAddr.
            (case env L of
               None \<Rightarrow> Some (Inl TypeError)
             | Some e \<Rightarrow>
                 bindP (Some (if aging e then getBlockCount L else Inr (Fin 0))) (\<lambda>currentBlockHeight.
                   calc_loop L (aging e) currentBlockHeight bchAddr tokId elems))))"

section \<open>Aggregator: \<^verbatim>\<open>agMerit\<close>\<close>

text \<open>\<^verbatim>\<open>meritUtxos.map(elem => (agMerit += elem.merit))\<close>, from \<^verbatim>\<open>agMerit = 0\<close>.\<close>

definition sum_merit :: "merit_lib \<Rightarrow> utxo list \<Rightarrow> prim" where
  "sum_merit L meritUtxos =
     foldl (\<lambda>acc elem. js_plus (StringToNumber L) (NumberToString L) acc (merit elem))
       (Num (Fin 0)) meritUtxos"

definition agMerit :: "merit_lib \<Rightarrow> prim \<Rightarrow> prim \<Rightarrow> (error + prim) option" where
  "agMerit L address tokId =
     (if \<not> truthy address then Some (Inl (Error ''an address must be specified!''))
      else
        bindP (Some (getTokenUtxos L address tokId)) (\<lambda>utxos.
          (case env L of
             None \<Rightarrow> Some (Inl TypeError)
           | Some e \<Rightarrow>
               bindP (calcMerit L (Array (map Obj utxos)) address tokId) (\<lambda>meritUtxos.
                 Some (Inr (sum_merit L meritUtxos))))))"

section \<open>Notions of the specification\<close>

text \<open>
  The height an age is counted from: the ancestor's when the walk found one, the UTXO's
  own otherwise.
\<close>

definition effective_height :: "utxo \<Rightarrow> jsval \<Rightarrow> prim" where
  "effective_height r ancestor = (case ancestor of Obj p \<Rightarrow> height p | Prim q \<Rightarrow> height r)"

text \<open>
  The merit of one UTXO before aging: the token quantity when a token is selected, the
  native value divided by 100000000 otherwise.
\<close>

definition unit_of :: "merit_lib \<Rightarrow> prim \<Rightarrow> utxo \<Rightarrow> number" where
  "unit_of L tokId u =
     (if truthy tokId then ToNumber (StringToNumber L) (tokenQty u)
      else fdiv (ToNumber (StringToNumber L) (utxo_value u)) (Fin 100000000))"

text \<open>The sum of the merits of a sequence of UTXOs, added from the left, from 0.\<close>

definition merit_sum :: "merit_lib \<Rightarrow> prim \<Rightarrow> utxo list \<Rightarrow> number" where
  "merit_sum L tokId utxos = foldl fadd (Fin 0) (map (unit_of L tokId) utxos)"

text \<open>A number that is a natural number, and its value.\<close>

definition is_nat_number :: "number \<Rightarrow> bool" where
  "is_nat_number x = (case x of Fin a \<Rightarrow> a = of_nat (nat \<lfloor>a\<rfloor>) | _ \<Rightarrow> False)"

definition nat_of_number :: "number \<Rightarrow> nat" where
  "nat_of_number x = (case x of Fin a \<Rightarrow> nat \<lfloor>a\<rfloor> | _ \<Rightarrow> 0)"

text \<open>
  The data model of the specification: a UTXO has a transaction id, an output index, a
  block height and a native value, and either both a token id and a token quantity or
  neither.
\<close>

fun is_Num :: "prim \<Rightarrow> bool" where
  "is_Num (Num n) = True"
| "is_Num _ = False"

definition wellformed_utxo :: "utxo \<Rightarrow> bool" where
  "wellformed_utxo u =
     (is_Str (tx_hash u) \<and> is_Num (tx_pos u) \<and> is_Num (height u) \<and> is_Num (utxo_value u) \<and>
      ((tokenId u = Undefined \<and> tokenQty u = Undefined) \<or>
       (is_Str (tokenId u) \<and> tokenQty u \<noteq> Undefined)))"

text \<open>
  ParentMatcher as the specification words it: every pair of a candidate input and a
  history entry with the candidate's transaction id, in the order of evaluation; a pair
  is accepted when the entry's transaction data is a valid token transaction of the
  child's token; the last accepted pair wins, and the parent is the entry with the
  candidate's output index.
\<close>

definition candidate_matches :: "utxo list \<Rightarrow> vin_entry list \<Rightarrow> (vin_entry \<times> utxo) list" where
  "candidate_matches txHistory parentUtxos =
     concat (map (\<lambda>pu. map (\<lambda>m. (pu, m))
       (filter (\<lambda>m. strict_eq (tx_hash m) (vin_txid pu)) txHistory)) parentUtxos)"

definition accepted :: "merit_lib \<Rightarrow> prim \<Rightarrow> utxo \<Rightarrow> bool" where
  "accepted L childTokenId m =
     (case getTxData L (tx_hash m) of
        Inr (d # rest) \<Rightarrow> valid_parent childTokenId d
      | _ \<Rightarrow> False)"

definition last_accepted :: "merit_lib \<Rightarrow> prim \<Rightarrow> utxo list \<Rightarrow> vin_entry list \<Rightarrow> jsval" where
  "last_accepted L childTokenId txHistory parentUtxos =
     (case rev (filter (\<lambda>pm. accepted L childTokenId (snd pm))
                  (candidate_matches txHistory parentUtxos)) of
        [] \<Rightarrow> Prim (Bool False)
      | pm # earlier \<Rightarrow> Obj ((snd pm)\<lparr>tx_pos := vin_vout (fst pm)\<rparr>))"

text \<open>
  For the proof that \<^verbatim>\<open>findTokenParent\<close> computes \<open>last_accepted\<close>: the last element of
  a list, the pairs of a candidate and the index of a matching history object in the
  order the loops visit them, and the invariant of the loops after the pairs \<open>P\<close>: the
  history objects are those of the fetched history \<open>h0\<close>, each with the output index of
  the last candidate it was matched with, and \<^verbatim>\<open>parentInfo\<close> refers to the object of
  the last accepted pair.
\<close>

definition last_opt :: "'a list \<Rightarrow> 'a option" where
  "last_opt xs = (case rev xs of [] \<Rightarrow> None | x # earlier \<Rightarrow> Some x)"

definition index_pairs :: "utxo list \<Rightarrow> vin_entry list \<Rightarrow> (vin_entry \<times> nat) list" where
  "index_pairs txHistory parentUtxos =
     concat (map (\<lambda>pu. map (\<lambda>j. (pu, j)) (matches txHistory (vin_txid pu))) parentUtxos)"

definition fp_inv ::
  "merit_lib \<Rightarrow> prim \<Rightarrow> utxo list \<Rightarrow> (vin_entry \<times> nat) list \<Rightarrow> fp_state \<Rightarrow> bool" where
  "fp_inv L childTokenId h0 P st =
     (length (fst st) = length h0 \<and>
      (\<forall>j < length h0. fst st ! j =
         (case last_opt (filter (\<lambda>pj. snd pj = j) P) of
            None \<Rightarrow> h0 ! j
          | Some pj \<Rightarrow> (h0 ! j)\<lparr>tx_pos := vin_vout (fst pj)\<rparr>)) \<and>
      snd st = map_option snd (last_opt (filter (\<lambda>pj. accepted L childTokenId (h0 ! snd pj)) P)))"

text \<open>
  A token id matches the requested one when it is a non-empty string that contains the
  requested id as a substring.
\<close>

fun token_matches :: "string \<Rightarrow> prim \<Rightarrow> bool" where
  "token_matches t (Str s) = (s \<noteq> [] \<and> sublist t s)"
| "token_matches t p = False"

text \<open>
  The chain of parents the walk resolves from \<open>txid\<close>: each transaction's parent is
  what \<^verbatim>\<open>findTokenParent\<close> returns for it, and the chain ends at the first
  transaction with no parent (or at a parent whose id is falsy).
\<close>

inductive ancestry_chain :: "merit_lib \<Rightarrow> prim \<Rightarrow> prim \<Rightarrow> utxo list \<Rightarrow> bool"
  for L :: merit_lib and addr :: prim where
  chain_end: "truthy txid \<Longrightarrow> findTokenParent L txid addr = Inr (Prim (Bool False)) \<Longrightarrow>
     ancestry_chain L addr txid []"
| chain_stop: "truthy txid \<Longrightarrow> findTokenParent L txid addr = Inr (Obj p) \<Longrightarrow>
     \<not> truthy (tx_hash p) \<Longrightarrow> ancestry_chain L addr txid [p]"
| chain_step: "truthy txid \<Longrightarrow> findTokenParent L txid addr = Inr (Obj p) \<Longrightarrow>
     ancestry_chain L addr (tx_hash p) ps \<Longrightarrow> ancestry_chain L addr txid (p # ps)"

code_pred ancestry_chain .

text \<open>The deepest ancestor of a chain: its last parent, \<^verbatim>\<open>false\<close> when it has none.\<close>

definition deepest :: "utxo list \<Rightarrow> jsval" where
  "deepest ps = (case rev ps of [] \<Rightarrow> Prim (Bool False) | p # earlier \<Rightarrow> Obj p)"

text \<open>
  Modelled from the spec: \<^verbatim>\<open>bchjs.Util.floor2\<close> belongs to the library
  \<^verbatim>\<open>bch-js\<close>, which is not part of the repository. "\<^verbatim>\<open>floor2\<close> truncates to two
  decimal places, never rounds up": the largest multiple of 0.01 that is not above the
  argument, as a Number.
\<close>

definition floor2_spec :: "number \<Rightarrow> error + number" where
  "floor2_spec x = Inr (case x of Fin a \<Rightarrow> round_double (of_int \<lfloor>a * 100\<rfloor> / 100) | _ \<Rightarrow> x)"

text \<open>The Number that the literal \<^verbatim>\<open>2.05\<close> denotes.\<close>

definition js_2_05 :: number where
  "js_2_05 = round_double (205 / 100)"

text \<open>The depths of the transactions of the example ledger below.\<close>

definition ledger_depth :: "prim \<Rightarrow> nat" where
  "ledger_depth t = (if t = Str ''c'' then 3 else if t = Str ''b'' then 2 else 1)"

section \<open>An example ledger\<close>

text \<open>
  The object \<^verbatim>\<open>{}\<close>, a transaction that is no token transaction, and an instance of
  the library over an empty ledger, with aging switched off.
\<close>

definition blank :: utxo where
  "blank = \<lparr>tx_hash = Undefined, tx_pos = Undefined, height = Undefined,
     utxo_value = Undefined, tokenId = Undefined, tokenQty = Undefined,
     age = Undefined, merit = Undefined, other = []\<rparr>"

definition plain_tx :: txdata where
  "plain_tx = \<lparr>tx_tokenId = Undefined, isValidSlp = Bool False, vin = []\<rparr>"

definition test_lib :: merit_lib where
  "test_lib = \<lparr>env = Some \<lparr>MERIT_AGE = Undefined, VERBOSE_LOG = Undefined\<rparr>,
     toCashAddress = Inr, getBlockCount = Inr (Fin 665800), floor2 = floor2_spec,
     getUtxos = (\<lambda>a. Inr \<lparr>bchUtxos = [], slp_type1_tokens = []\<rparr>),
     getTxData = (\<lambda>t. Inr [plain_tx]), getTransactions = (\<lambda>a. Inr []),
     StringToNumber = (\<lambda>s. NaN), NumberToString = (\<lambda>n. ''NaN'')\<rparr>"

definition aging_env :: env_vars where
  "aging_env = \<lparr>MERIT_AGE = Str ''1'', VERBOSE_LOG = Undefined\<rparr>"

text \<open>
  A ledger with aging switched on. The token transaction \<open>c\<close> spends output 1 of \<open>a\<close>
  and output 2 of \<open>b\<close>; \<open>b\<close> spends output 0 of \<open>a\<close>; \<open>a\<close> spends a transaction \<open>g\<close>
  that is not in the history of the address. The history lists \<open>b\<close> (height 700)
  before \<open>a\<close> (height 600).
\<close>

definition token_tx :: "vin_entry list \<Rightarrow> txdata" where
  "token_tx ins = \<lparr>tx_tokenId = Str ''T'', isValidSlp = Bool True, vin = ins\<rparr>"

definition spend :: "string \<Rightarrow> rat \<Rightarrow> vin_entry" where
  "spend t n = \<lparr>vin_txid = Str t, vin_vout = Num (Fin n)\<rparr>"

definition ledger_tx :: "prim \<Rightarrow> error + txdata list" where
  "ledger_tx t =
     (if t = Str ''c'' then Inr [token_tx [spend ''a'' 1, spend ''b'' 2]]
      else if t = Str ''b'' then Inr [token_tx [spend ''a'' 0]]
      else if t = Str ''a'' then Inr [token_tx [spend ''g'' 0]]
      else Inr [plain_tx])"

definition entry :: "string \<Rightarrow> rat \<Rightarrow> utxo" where
  "entry t h = blank\<lparr>tx_hash := Str t, height := Num (Fin h)\<rparr>"

definition ledger_lib :: merit_lib where
  "ledger_lib = test_lib\<lparr>env := Some aging_env, getTxData := ledger_tx,
     getTransactions := (\<lambda>a. Inr [entry ''b'' 700, entry ''a'' 600])\<rparr>"

text \<open>
  A token UTXO of height 665504 holding 5000 tokens, created by \<open>a\<close>, and an
  unconfirmed one created by \<open>c\<close>.
\<close>

definition sample_utxo :: utxo where
  "sample_utxo = blank\<lparr>tx_hash := Str ''a'', tx_pos := Num (Fin 1), height := Num (Fin 665504),
     utxo_value := Num (Fin 546), tokenId := Str ''T'', tokenQty := Num (Fin 5000)\<rparr>"

definition unconfirmed_utxo :: utxo where
  "unconfirmed_utxo = sample_utxo\<lparr>tx_hash := Str ''c'', height := Num (Fin 0)\<rparr>"

text \<open>Native UTXOs of 0.1, 0.2 and 0.3 coins, and a wallet that lists them in an order.\<close>

definition coin :: "rat \<Rightarrow> utxo" where
  "coin v = blank\<lparr>tx_hash := Str ''n'', tx_pos := Num (Fin 0), height := Num (Fin 665504),
     utxo_value := Num (Fin v)\<rparr>"

definition coins :: "utxo list" where
  "coins = [coin 10000000, coin 20000000, coin 30000000]"

text \<open>Two token UTXOs, of 5000 and of 250 tokens.\<close>

definition token_utxos :: "utxo list" where
  "token_utxos = [sample_utxo, sample_utxo\<lparr>tx_hash := Str ''b'', tokenQty := Num (Fin 250)\<rparr>]"

text \<open>
  Token UTXOs of the tokens \<open>T\<close>, \<open>xTy\<close> and \<open>U\<close>, and a record without a token id.
\<close>

definition mixed_utxos :: "utxo list" where
  "mixed_utxos = [sample_utxo, sample_utxo\<lparr>tokenId := Str ''xTy''\<rparr>,
     sample_utxo\<lparr>tokenId := Str ''U''\<rparr>, coin 1]"

definition wallet_lib :: "utxo list \<Rightarrow> utxo list \<Rightarrow> merit_lib" where
  "wallet_lib native tokens =
     test_lib\<lparr>getUtxos := (\<lambda>a. Inr \<lparr>bchUtxos = native, slp_type1_tokens = tokens\<rparr>)\<rparr>"

section \<open>Sequencing\<close>

lemma bindE_simps [simp]:
  "bindE (Inl e) f = Inl e"
  "bindE (Inr x) f = f x"
  by (simp_all add: bindE_def)

lemma bindP_simps [simp]:
  "bindP None g = None"
  "bindP (Some (Inl e)) g = Some (Inl e)"
  "bindP (Some (Inr x)) g = g x"
  by (simp_all add: bindP_def)

lemma bindE_eq_Inr: "bindE m f = Inr y \<longleftrightarrow> (\<exists>x. m = Inr x \<and> f x = Inr y)"
  by (cases m) simp_all

lemma bindP_eq_Some_Inr:
  "bindP m g = Some (Inr y) \<longleftrightarrow> (\<exists>x. m = Some (Inr x) \<and> g x = Some (Inr y))"
  by (cases m) (auto simp: bindP_def split: sum.splits)

section \<open>Rounding\<close>

lemma pow2_power_int: "pow2 k = power_int 2 k"
  by (simp add: pow2_def power_int_def inverse_eq_divide power_one_over)

lemma pow2_pos [simp]: "0 < pow2 k"
  by (simp add: pow2_power_int)

lemma pow2_nonzero [simp]: "pow2 k \<noteq> 0"
  using pow2_pos [of k] by (simp del: pow2_pos)

lemma pow2_mono: "j \<le> k \<Longrightarrow> pow2 j \<le> pow2 k"
  by (simp add: pow2_power_int power_int_increasing)

lemma pow2_add: "pow2 (j + k) = pow2 j * pow2 k"
  by (simp add: pow2_power_int power_int_add)

lemma bitlen_bounds: "0 < a \<Longrightarrow> 2 ^ (bitlen a - 1) \<le> a \<and> a < 2 ^ bitlen a"
proof (induction a rule: bitlen.induct)
  case (1 a)
  show ?case
  proof (cases "a div 2 \<le> 0")
    case True
    with "1.prems" have "a = 1" by linarith
    then show ?thesis by (simp add: bitlen.simps [of 1] bitlen.simps [of 0])
  next
    case False
    with "1.IH" "1.prems" have IH: "2 ^ (bitlen (a div 2) - 1) \<le> a div 2" "a div 2 < 2 ^ bitlen (a div 2)"
      by simp_all
    from False have pos: "0 < bitlen (a div 2)" by (simp add: bitlen.simps [of "a div 2"])
    have b: "bitlen a = Suc (bitlen (a div 2))" using "1.prems" by (simp add: bitlen.simps [of a])
    from pos have "(2::int) ^ bitlen (a div 2) = 2 * 2 ^ (bitlen (a div 2) - 1)"
      by (cases "bitlen (a div 2)") simp_all
    with IH(1) have "2 ^ bitlen (a div 2) \<le> 2 * (a div 2)" by simp
    also have "\<dots> \<le> a" by linarith
    finally have lo: "2 ^ (bitlen a - 1) \<le> a" by (simp add: b)
    from IH(2) have "a < 2 * 2 ^ bitlen (a div 2)" by linarith
    then have "a < 2 ^ bitlen a" by (simp add: b)
    with lo show ?thesis ..
  qed
qed

lemma ilog2_bounds:
  assumes "0 < x"
  shows "pow2 (ilog2 x) \<le> x \<and> x < pow2 (ilog2 x + 1)"
proof -
  obtain a b where q: "quotient_of x = (a, b)" by (cases "quotient_of x")
  then have b: "0 < b" and x: "x = of_int a / of_int b"
    by (auto simp: quotient_of_denom_pos quotient_of_div)
  with assms have a: "0 < a" by (simp add: zero_less_divide_iff)
  define la lb where "la = bitlen a" and "lb = bitlen b"
  from bitlen_bounds [OF a] have A: "2 ^ (la - 1) \<le> a" "a < 2 ^ la"
    by (simp_all add: la_def)
  from bitlen_bounds [OF b] have B: "2 ^ (lb - 1) \<le> b" "b < 2 ^ lb"
    by (simp_all add: lb_def)
  from A a have la: "0 < la" by (cases la) simp_all
  from B b have lb: "0 < lb" by (cases lb) simp_all
  have A1: "pow2 (int la - 1) \<le> of_int a"
  proof -
    have "(of_int (2 ^ (la - 1)) :: rat) \<le> of_int a" using A(1) by (simp only: of_int_le_iff)
    moreover have "pow2 (int la - 1) = 2 ^ (la - 1)" using la by (simp add: pow2_def nat_diff_distrib)
    ultimately show ?thesis by simp
  qed
  have A2: "of_int a < pow2 (int la)"
  proof -
    have "(of_int a :: rat) < of_int (2 ^ la)" using A(2) by (simp only: of_int_less_iff)
    then show ?thesis by (simp add: pow2_def)
  qed
  have B1: "pow2 (int lb - 1) \<le> of_int b"
  proof -
    have "(of_int (2 ^ (lb - 1)) :: rat) \<le> of_int b" using B(1) by (simp only: of_int_le_iff)
    moreover have "pow2 (int lb - 1) = 2 ^ (lb - 1)" using lb by (simp add: pow2_def nat_diff_distrib)
    ultimately show ?thesis by simp
  qed
  have B2: "of_int b < pow2 (int lb)"
  proof -
    have "(of_int b :: rat) < of_int (2 ^ lb)" using B(2) by (simp only: of_int_less_iff)
    then show ?thesis by (simp add: pow2_def)
  qed
  define k where "k = int la - int lb"
  have bpos: "(0::rat) < of_int b" using b by simp
  have hi: "x < pow2 (k + 1)"
  proof -
    have "of_int a < pow2 (k + 1) * pow2 (int lb - 1)"
      using A2 by (simp add: pow2_add [symmetric] k_def)
    also have "\<dots> \<le> pow2 (k + 1) * of_int b"
      using B1 by (simp add: mult_left_mono less_imp_le)
    finally show ?thesis using bpos by (simp add: x pos_divide_less_eq)
  qed
  have lo: "pow2 (k - 1) < x"
  proof -
    have "pow2 (k - 1) * of_int b < pow2 (k - 1) * pow2 (int lb)"
      using B2 by (simp add: mult_strict_left_mono)
    also have "\<dots> = pow2 (int la - 1)" by (simp add: pow2_add [symmetric] k_def)
    also have "\<dots> \<le> of_int a" by (rule A1)
    finally show ?thesis using bpos by (simp add: x pos_less_divide_eq)
  qed
  have il: "ilog2 x = (if pow2 k \<le> x then k else k - 1)"
    by (simp add: ilog2_def q la_def lb_def k_def Let_def)
  show ?thesis
  proof (cases "pow2 k \<le> x")
    case True
    with il hi show ?thesis by simp
  next
    case False
    with il lo show ?thesis by simp
  qed
qed

lemma ilog2_unique:
  assumes "pow2 e \<le> x" and "x < pow2 (e + 1)"
  shows "ilog2 x = e"
proof -
  have "0 < pow2 e" by simp
  with assms(1) have pos: "0 < x" by linarith
  from ilog2_bounds [OF pos] have b: "pow2 (ilog2 x) \<le> x" "x < pow2 (ilog2 x + 1)" by simp_all
  have "\<not> ilog2 x < e"
  proof
    assume "ilog2 x < e"
    then have "pow2 (ilog2 x + 1) \<le> pow2 e" by (intro pow2_mono) simp
    with b(2) assms(1) show False by simp
  qed
  moreover have "\<not> e < ilog2 x"
  proof
    assume "e < ilog2 x"
    then have "pow2 (e + 1) \<le> pow2 (ilog2 x)" by (intro pow2_mono) simp
    with b(1) assms(2) show False by simp
  qed
  ultimately show ?thesis by simp
qed

lemma round_half_even_near:
  assumes "\<bar>x - of_int m\<bar> < 1 / 2"
  shows "round_half_even x = m"
proof -
  from assms have lo: "of_int m - 1 / 2 < x" and hi: "x < of_int m + 1 / 2"
    by linarith+
  show ?thesis
  proof (cases "of_int m \<le> x")
    case True
    have "\<lfloor>x\<rfloor> = m"
    proof (rule floor_unique)
      show "of_int m \<le> x" by (rule True)
      show "x < of_int m + 1" using hi by linarith
    qed
    with hi show ?thesis by (simp add: round_half_even_def Let_def)
  next
    case False
    have f: "\<lfloor>x\<rfloor> = m - 1"
    proof (rule floor_unique)
      show "of_int (m - 1) \<le> x" using lo by simp
      show "x < of_int (m - 1) + 1" using False by simp
    qed
    have "1 / 2 < x - of_int (m - 1)" using lo by simp
    with f show ?thesis by (simp add: round_half_even_def Let_def)
  qed
qed

lemma round_half_even_tie:
  assumes "x = of_int f + 1 / 2"
  shows "round_half_even x = (if even f then f else f + 1)"
proof -
  from assms have "\<lfloor>x\<rfloor> = f" by (intro floor_unique) simp_all
  with assms show ?thesis by (simp add: round_half_even_def Let_def)
qed

lemma round_double_eq:
  assumes e: "pow2 e \<le> \<bar>x\<bar>" "\<bar>x\<bar> < pow2 (e + 1)"
    and q: "q = max (e - 52) (- 1074)"
    and m: "round_half_even (x / pow2 q) = m"
    and r: "\<bar>of_int m * pow2 q\<bar> < 2 ^ 1024"
  shows "round_double x = Fin (of_int m * pow2 q)"
proof -
  have "0 < pow2 e" by simp
  with e(1) have "x \<noteq> 0" by (cases "x = 0") simp_all
  moreover from e have "ilog2 \<bar>x\<bar> = e" by (rule ilog2_unique)
  ultimately show ?thesis
    using q m r by (simp add: round_double_def Let_def)
qed



lemma round_double_0 [simp]: "round_double 0 = Fin 0"
  by (simp add: round_double_def)

text \<open>The roundings the examples below need.\<close>

lemma dbl_tenth: "round_double (1 / 10) = Fin (3602879701896397 / 36028797018963968)"
proof -
  have "round_double (1 / 10) = Fin (of_int 7205759403792794 * pow2 (- 56))"
    by (rule round_double_eq [where e = "- 4"])
       (simp_all add: pow2_def round_half_even_near [where m = "7205759403792794"])
  then show ?thesis by (simp add: pow2_def)
qed

lemma dbl_fifth: "round_double (1 / 5) = Fin (3602879701896397 / 18014398509481984)"
proof -
  have "round_double (1 / 5) = Fin (of_int 7205759403792794 * pow2 (- 55))"
    by (rule round_double_eq [where e = "- 3"])
       (simp_all add: pow2_def round_half_even_near [where m = "7205759403792794"])
  then show ?thesis by (simp add: pow2_def)
qed

lemma dbl_three_tenths: "round_double (3 / 10) = Fin (5404319552844595 / 18014398509481984)"
proof -
  have "round_double (3 / 10) = Fin (of_int 5404319552844595 * pow2 (- 54))"
    by (rule round_double_eq [where e = "- 2"])
       (simp_all add: pow2_def round_half_even_near [where m = "5404319552844595"])
  then show ?thesis by (simp add: pow2_def)
qed

lemma fwd_sum1: "round_double (3602879701896397 / 36028797018963968) = Fin (3602879701896397 / 36028797018963968)"
proof -
  have "round_double (3602879701896397 / 36028797018963968) = Fin (of_int 7205759403792794 * pow2 (- 56))"
    by (rule round_double_eq [where e = "- 4"])
       (simp_all add: pow2_def round_half_even_near [where m = "7205759403792794"])
  then show ?thesis by (simp add: pow2_def)
qed

lemma fwd_sum2: "round_double (10808639105689191 / 36028797018963968) = Fin (1351079888211149 / 4503599627370496)"
proof -
  have "round_double (10808639105689191 / 36028797018963968) = Fin (of_int 5404319552844596 * pow2 (- 54))"
    by (rule round_double_eq [where e = "- 2"])
       (simp_all add: pow2_def round_half_even_tie [where f = "5404319552844595"])
  then show ?thesis by (simp add: pow2_def)
qed

lemma fwd_sum3: "round_double (10808639105689191 / 18014398509481984) = Fin (1351079888211149 / 2251799813685248)"
proof -
  have "round_double (10808639105689191 / 18014398509481984) = Fin (of_int 5404319552844596 * pow2 (- 53))"
    by (rule round_double_eq [where e = "- 1"])
       (simp_all add: pow2_def round_half_even_tie [where f = "5404319552844595"])
  then show ?thesis by (simp add: pow2_def)
qed

lemma rev_sum1: "round_double (5404319552844595 / 18014398509481984) = Fin (5404319552844595 / 18014398509481984)"
proof -
  have "round_double (5404319552844595 / 18014398509481984) = Fin (of_int 5404319552844595 * pow2 (- 54))"
    by (rule round_double_eq [where e = "- 2"])
       (simp_all add: pow2_def round_half_even_near [where m = "5404319552844595"])
  then show ?thesis by (simp add: pow2_def)
qed

lemma rev_sum2: "round_double (1 / 2) = Fin (1 / 2)"
proof -
  have "round_double (1 / 2) = Fin (of_int 4503599627370496 * pow2 (- 53))"
    by (rule round_double_eq [where e = "- 1"])
       (simp_all add: pow2_def round_half_even_near [where m = "4503599627370496"])
  then show ?thesis by (simp add: pow2_def)
qed

lemma rev_sum3: "round_double (21617278211378381 / 36028797018963968) = Fin (5404319552844595 / 9007199254740992)"
proof -
  have "round_double (21617278211378381 / 36028797018963968) = Fin (of_int 5404319552844595 * pow2 (- 53))"
    by (rule round_double_eq [where e = "- 1"])
       (simp_all add: pow2_def round_half_even_near [where m = "5404319552844595"])
  then show ?thesis by (simp add: pow2_def)
qed

lemma dbl_age_B: "round_double (37 / 18) = Fin (1157174904254919 / 562949953421312)"
proof -
  have "round_double (37 / 18) = Fin (of_int 4628699617019676 * pow2 (- 51))"
    by (rule round_double_eq [where e = "1"])
       (simp_all add: pow2_def round_half_even_near [where m = "4628699617019676"])
  then show ?thesis by (simp add: pow2_def)
qed

lemma dbl_2_05: "round_double (41 / 20) = Fin (2308094809027379 / 1125899906842624)"
proof -
  have "round_double (41 / 20) = Fin (of_int 4616189618054758 * pow2 (- 51))"
    by (rule round_double_eq [where e = "1"])
       (simp_all add: pow2_def round_half_even_near [where m = "4616189618054758"])
  then show ?thesis by (simp add: pow2_def)
qed

lemma dbl_merit_B: "round_double (1442559255642111875 / 140737488355328) = Fin (10250)"
proof -
  have "round_double (1442559255642111875 / 140737488355328) = Fin (of_int 5634997092352000 * pow2 (- 39))"
    by (rule round_double_eq [where e = "13"])
       (simp_all add: pow2_def round_half_even_near [where m = "5634997092352000"])
  then show ?thesis by (simp add: pow2_def)
qed


text \<open>A natural number below \<open>2 ^ 53\<close> is a Number, and rounding leaves it as it is.\<close>

lemma round_double_of_nat:
  assumes "n < 2 ^ 53"
  shows "round_double (of_nat n) = Fin (of_nat n)"
proof (cases "n = 0")
  case True
  then show ?thesis by simp
next
  case False
  define x :: rat where "x = of_nat n"
  have pos: "0 < x" using False by (simp add: x_def)
  define e where "e = ilog2 x"
  from ilog2_bounds [OF pos] have b: "pow2 e \<le> x" "x < pow2 (e + 1)"
    by (simp_all add: e_def)
  have "(of_nat n :: rat) < of_nat (2 ^ 53)" using assms by (simp only: of_nat_less_iff)
  then have x53: "x < pow2 53" by (simp add: x_def pow2_def)
  have e52: "e \<le> 52"
  proof (rule ccontr)
    assume "\<not> e \<le> 52"
    then have "pow2 53 \<le> pow2 e" by (intro pow2_mono) simp
    with b(1) x53 show False by simp
  qed
  define q where "q = max (e - 52) (- 1074)"
  have q: "q \<le> 0" using e52 by (simp add: q_def)
  define k :: int where "k = int n * 2 ^ nat (- q)"
  have scaled: "x / pow2 q = of_int k"
    using q by (simp add: pow2_def x_def k_def)
  have "of_int k * pow2 q = x / pow2 q * pow2 q" by (simp only: scaled)
  also have "\<dots> = x" by simp
  finally have unscaled: "of_int k * pow2 q = x" .
  have "round_half_even (x / pow2 q) = k"
    unfolding scaled by (rule round_half_even_near) simp
  moreover have "\<bar>of_int k * pow2 q\<bar> < 2 ^ 1024"
  proof -
    have "(2::rat) ^ 53 \<le> 2 ^ 1024" by (rule power_increasing) simp_all
    moreover have "x < 2 ^ 53" using x53 by (simp add: pow2_def)
    ultimately have "x < 2 ^ 1024" by (rule less_le_trans [rotated])
    with pos show ?thesis by (simp only: unscaled abs_of_pos)
  qed
  ultimately have "round_double x = Fin (of_int k * pow2 q)"
    using b pos by (intro round_double_eq [where e = e]) (simp_all add: q_def)
  then show ?thesis by (simp add: unscaled x_def)
qed

section \<open>The walk\<close>

lemma findTokenParent_InrE:
  assumes "findTokenParent L txid addr = Inr v"
  obtains txData rest txHistory st where "getTxData L txid = Inr (txData # rest)"
    and "getTransactions L addr = Inr txHistory"
    and "parent_loop L (tx_tokenId txData) (vin txData) (txHistory, None) = Inr st"
    and "v = (case snd st of None \<Rightarrow> Prim (Bool False) | Some j \<Rightarrow> Obj (fst st ! j))"
proof -
  from assms obtain txs where txs: "getTxData L txid = Inr txs"
    by (cases "getTxData L txid") (simp_all add: findTokenParent_def)
  with assms obtain txData rest where cons: "txs = txData # rest"
    by (cases txs) (simp_all add: findTokenParent_def)
  from assms txs cons obtain txHistory where h: "getTransactions L addr = Inr txHistory"
    by (cases "getTransactions L addr") (simp_all add: findTokenParent_def)
  from assms txs cons h obtain st where
    "parent_loop L (tx_tokenId txData) (vin txData) (txHistory, None) = Inr st"
    by (cases "parent_loop L (tx_tokenId txData) (vin txData) (txHistory, None)")
       (simp_all add: findTokenParent_def)
  with assms txs cons h that show ?thesis
    by (simp add: findTokenParent_def)
qed

lemma findTokenParent_shape:
  assumes "findTokenParent L txid addr = Inr v"
  shows "v = Prim (Bool False) \<or> (\<exists>p. v = Obj p)"
  using assms by (elim findTokenParent_InrE) (simp split: option.splits)

text \<open>What the walk returns is the parent it started with, or an object.\<close>

lemma getParentAge_loop_shape:
  assumes "getParentAge_loop L txid addr oldestUtxo = Some r"
  shows "\<forall>x. r = Inr x \<longrightarrow> x = oldestUtxo \<or> (\<exists>p. x = Obj p)"
proof (rule getParentAge_loop.raw_induct [OF _ assms])
  fix walk L txid addr oldestUtxo r
  assume IH: "\<And>L t a b y. walk L t a b = Some y \<Longrightarrow>
                 \<forall>x. y = Inr x \<longrightarrow> x = b \<or> (\<exists>p. x = Obj p)"
    and step: "(if truthy txid then
        (case findTokenParent L txid addr of
           Inl e \<Rightarrow> Some (Inl e)
         | Inr parentUtxo \<Rightarrow>
             (case get_prop tx_hash parentUtxo of
                Inl e \<Rightarrow> Some (Inl e)
              | Inr txid' \<Rightarrow>
                  walk L txid' addr (if truthy_val parentUtxo then parentUtxo else oldestUtxo)))
      else Some (Inr oldestUtxo)) = Some r"
  show "\<forall>x. r = Inr x \<longrightarrow> x = oldestUtxo \<or> (\<exists>p. x = Obj p)"
  proof (cases "truthy txid")
    case False
    with step show ?thesis by auto
  next
    case True
    show ?thesis
    proof (intro allI impI)
      fix x assume r: "r = Inr x"
      from step True r obtain parentUtxo txid' where
        ftp: "findTokenParent L txid addr = Inr parentUtxo" and
        "get_prop tx_hash parentUtxo = Inr txid'" and
        w: "walk L txid' addr (if truthy_val parentUtxo then parentUtxo else oldestUtxo) = Some (Inr x)"
        by (auto split: sum.splits)
      from IH [OF w]
      have x: "x = (if truthy_val parentUtxo then parentUtxo else oldestUtxo) \<or> (\<exists>p. x = Obj p)"
        by simp
      from findTokenParent_shape [OF ftp]
      have "parentUtxo = Prim (Bool False) \<or> (\<exists>p. parentUtxo = Obj p)" .
      then show "x = oldestUtxo \<or> (\<exists>p. x = Obj p)"
      proof
        assume "parentUtxo = Prim (Bool False)"
        with x show ?thesis by simp
      next
        assume "\<exists>p. parentUtxo = Obj p"
        with x show ?thesis by auto
      qed
    qed
  qed
qed

lemma getParentAge_shape:
  "getParentAge L txid addr = Some (Inr x) \<Longrightarrow> x = Prim (Bool False) \<or> (\<exists>p. x = Obj p)"
  using getParentAge_loop_shape [of L txid addr "Prim (Bool False)" "Inr x"]
  by (simp add: getParentAge_def)

text \<open>A walk that ends within \<open>n\<close> calls of \<^verbatim>\<open>findTokenParent\<close> is a walk that returns.\<close>

lemma fuel_sound:
  "getParentAge_fuel n L txid addr oldestUtxo = Some r \<Longrightarrow>
   getParentAge_loop L txid addr oldestUtxo = Some r"
proof (induction n arbitrary: txid oldestUtxo)
  case 0
  then show ?case
    by (subst getParentAge_loop.simps) (simp split: if_splits)
next
  case (Suc n)
  then show ?case
    by (subst getParentAge_loop.simps) (auto split: if_splits sum.splits)
qed

lemma fuel_mono:
  "getParentAge_fuel n L txid addr oldestUtxo = Some r \<Longrightarrow>
   getParentAge_fuel (Suc n) L txid addr oldestUtxo = Some r"
proof (induction n arbitrary: txid oldestUtxo)
  case 0
  then show ?case by (simp split: if_splits)
next
  case (Suc n)
  show ?case
  proof (cases "truthy txid")
    case False
    with Suc.prems show ?thesis by simp
  next
    case True
    show ?thesis
    proof (cases "findTokenParent L txid addr")
      case (Inl err)
      with True Suc.prems have "r = Inl err" by simp
      with True Inl show ?thesis by simp
    next
      case (Inr parentUtxo)
      note ftp = this
      show ?thesis
      proof (cases "get_prop tx_hash parentUtxo")
        case (Inl err)
        with True ftp Suc.prems have "r = Inl err" by simp
        with True ftp Inl show ?thesis by simp
      next
        case (Inr txid')
        with True ftp Suc.prems
        have "getParentAge_fuel n L txid' addr
                (if truthy_val parentUtxo then parentUtxo else oldestUtxo) = Some r"
          by simp
        then have "getParentAge_fuel (Suc n) L txid' addr
                (if truthy_val parentUtxo then parentUtxo else oldestUtxo) = Some r"
          by (rule Suc.IH)
        with True ftp Inr show ?thesis
          by (simp add: getParentAge_fuel.simps(2) [of "Suc n"])
      qed
    qed
  qed
qed

section \<open>The loop of \<^verbatim>\<open>calcMerit\<close>\<close>

lemma calc_elem_frame:
  "calc_elem L ag cur bchAddr tokId elem = Some (Inr u) \<Longrightarrow>
     \<exists>r. elem = Obj r \<and> u = r\<lparr>age := age u, merit := merit u\<rparr>"
  by (cases elem) (auto simp: calc_elem_def bindP_eq_Some_Inr)

lemma calc_loop_frame:
  "calc_loop L ag cur bchAddr tokId elems = Some (Inr out) \<Longrightarrow>
     list_all2 (\<lambda>elem u. \<exists>r. elem = Obj r \<and> u = r\<lparr>age := age u, merit := merit u\<rparr>) elems out"
proof (induction elems arbitrary: out)
  case Nil
  then show ?case by simp
next
  case (Cons elem rest)
  then show ?case
    by (auto simp: bindP_eq_Some_Inr dest: calc_elem_frame)
qed

lemma calc_loop_nth:
  "calc_loop L ag cur bchAddr tokId elems = Some (Inr out) \<Longrightarrow> i < length elems \<Longrightarrow>
     calc_elem L ag cur bchAddr tokId (elems ! i) = Some (Inr (out ! i))"
proof (induction elems arbitrary: out i)
  case Nil
  then show ?case by simp
next
  case (Cons elem rest)
  then show ?case
    by (cases i) (auto simp: bindP_eq_Some_Inr)
qed

lemma calcMerit_ArrayD:
  assumes "calcMerit L (Array elems) address tokId = Some (Inr out)"
  obtains bchAddr e cur where "toCashAddress L address = Inr bchAddr" and "env L = Some e"
    and "(if aging e then getBlockCount L else Inr (Fin 0)) = Inr cur"
    and "calc_loop L (aging e) cur bchAddr tokId elems = Some (Inr out)"
proof (cases "toCashAddress L address")
  case (Inl err)
  with assms show ?thesis by (simp add: calcMerit_def)
next
  case (Inr bchAddr)
  note addr = this
  show ?thesis
  proof (cases "env L")
    case None
    with assms addr show ?thesis by (simp add: calcMerit_def)
  next
    case (Some e)
    with assms addr that show ?thesis
      by (cases "if aging e then getBlockCount L else Inr (Fin 0)") (simp_all add: calcMerit_def)
  qed
qed

lemma unit_merit_Obj: "unit_merit L tokId (Obj u) = Inr (unit_of L tokId u)"
  by (simp add: unit_merit_def unit_of_def)

lemma calc_loop_no_aging:
  "calc_loop L False cur bchAddr tokId (map Obj us) =
     Some (Inr (map (\<lambda>u. u\<lparr>age := Num (Fin 0), merit := Num (unit_of L tokId u)\<rparr>) us))"
  by (induction us) (simp_all add: calc_elem_def unit_merit_Obj)

section \<open>The example ledger, evaluated\<close>

lemma test_lib_simps [simp]:
  "env test_lib = Some \<lparr>MERIT_AGE = Undefined, VERBOSE_LOG = Undefined\<rparr>"
  "toCashAddress test_lib = Inr"
  "getBlockCount test_lib = Inr (Fin 665800)"
  "floor2 test_lib = floor2_spec"
  "getUtxos test_lib a = Inr \<lparr>bchUtxos = [], slp_type1_tokens = []\<rparr>"
  "getTxData test_lib t = Inr [plain_tx]"
  "getTransactions test_lib a = Inr []"
  "StringToNumber test_lib = (\<lambda>s. NaN)"
  "NumberToString test_lib = (\<lambda>n. ''NaN'')"
  by (simp_all add: test_lib_def)

lemma ledger_lib_simps [simp]:
  "getTxData ledger_lib = ledger_tx"
  "getTransactions ledger_lib a = Inr [entry ''b'' 700, entry ''a'' 600]"
  "env ledger_lib = Some aging_env"
  "toCashAddress ledger_lib = Inr"
  "getBlockCount ledger_lib = Inr (Fin 665800)"
  "floor2 ledger_lib = floor2_spec"
  "StringToNumber ledger_lib = (\<lambda>s. NaN)"
  "NumberToString ledger_lib = (\<lambda>n. ''NaN'')"
  by (simp_all add: ledger_lib_def test_lib_def)

lemma wallet_lib_simps [simp]:
  "env (wallet_lib native tokens) = Some \<lparr>MERIT_AGE = Undefined, VERBOSE_LOG = Undefined\<rparr>"
  "toCashAddress (wallet_lib native tokens) = Inr"
  "getUtxos (wallet_lib native tokens) a = Inr \<lparr>bchUtxos = native, slp_type1_tokens = tokens\<rparr>"
  "StringToNumber (wallet_lib native tokens) = (\<lambda>s. NaN)"
  "NumberToString (wallet_lib native tokens) = (\<lambda>n. ''NaN'')"
  by (simp_all add: wallet_lib_def test_lib_def)

lemma aging_simps [simp]:
  "aging aging_env"
  "\<not> aging \<lparr>MERIT_AGE = Undefined, VERBOSE_LOG = Undefined\<rparr>"
  by (simp_all add: aging_def aging_env_def strict_eq_def)

lemma parent_of_c:
  "findTokenParent ledger_lib (Str ''c'') a = Inr (Obj ((entry ''b'' 700)\<lparr>tx_pos := Num (Fin 2)\<rparr>))"
  by (simp add: findTokenParent_def ledger_tx_def token_tx_def spend_def matches_def
      entry_def blank_def strict_eq_def valid_parent_def)

lemma parent_of_b:
  "findTokenParent ledger_lib (Str ''b'') a = Inr (Obj ((entry ''a'' 600)\<lparr>tx_pos := Num (Fin 0)\<rparr>))"
  by (simp add: findTokenParent_def ledger_tx_def token_tx_def spend_def matches_def
      entry_def blank_def strict_eq_def valid_parent_def)

lemma parent_of_a: "findTokenParent ledger_lib (Str ''a'') a = Inr (Prim (Bool False))"
  by (simp add: findTokenParent_def ledger_tx_def token_tx_def spend_def matches_def
      entry_def blank_def strict_eq_def valid_parent_def)

lemma walk_from_c_fuel:
  "getParentAge_fuel 3 ledger_lib (Str ''c'') a (Prim (Bool False))
     = Some (Inr (Obj ((entry ''a'' 600)\<lparr>tx_pos := Num (Fin 0)\<rparr>)))"
  by (simp add: eval_nat_numeral parent_of_a parent_of_b parent_of_c entry_def)

lemma walk_from_c:
  "getParentAge ledger_lib (Str ''c'') a
     = Some (Inr (Obj ((entry ''a'' 600)\<lparr>tx_pos := Num (Fin 0)\<rparr>)))"
  unfolding getParentAge_def by (rule fuel_sound [OF walk_from_c_fuel])

lemma walk_from_a: "getParentAge ledger_lib (Str ''a'') a = Some (Inr (Prim (Bool False)))"
  unfolding getParentAge_def
  by (rule fuel_sound [where n = 1]) (simp add: eval_nat_numeral parent_of_a)

lemma js_2_05_value: "js_2_05 = Fin (2308094809027379 / 1125899906842624)"
  by (simp add: js_2_05_def dbl_2_05)

lemma age_scenario_B:
  "fdiv (fsub (Fin 665800) (Fin 665504)) (Fin 144) = Fin (1157174904254919 / 562949953421312)"
proof -
  have "fsub (Fin 665800) (Fin 665504) = Fin 296"
    using round_double_of_nat [of 296] by (simp add: fsub_def)
  then show ?thesis by (simp add: dbl_age_B)
qed

lemma floor2_scenario_B:
  "floor2_spec (Fin (1157174904254919 / 562949953421312)) = Inr js_2_05"
proof -
  have "\<lfloor>(1157174904254919 / 562949953421312 :: rat) * 100\<rfloor> = 205"
    by (rule floor_unique) simp_all
  then show ?thesis by (simp add: floor2_spec_def js_2_05_def)
qed

lemma merit_scenario_B: "fmul (Fin 5000) js_2_05 = Fin 10250"
  by (simp add: js_2_05_value dbl_merit_B)

section \<open>C3: the age of a confirmed UTXO\<close>

text \<open>
  Claim C3. For every confirmed UTXO processed with aging enabled, the calculator sets
  \<open>ageDays = floor2 ((currentHeight - effectiveHeight) / 144)\<close>, where the effective
  height is the ancestor's height if the walk found an ancestor and the UTXO's own height
  otherwise; the merit is the unit merit times that age. Here \<open>r\<close> is a UTXO whose
  height is not \<open>0\<close>, the walk from its transaction returns \<open>ancestor\<close> (an object, or
  \<^verbatim>\<open>false\<close>), and \<^verbatim>\<open>floor2\<close> and the read of the quantity succeed. The witness is
  Scenario B of the specification: height 665504, quantity 5000, no ancestor, current
  height 665800, with \<^verbatim>\<open>floor2\<close> as the specification describes it: the age is the
  Number 2.05 and the merit is 10250.
\<close>

theorem age_of_confirmed_utxo:
  assumes conf: "\<not> strict_eq (height r) (Num (Fin 0))"
    and walk: "getParentAge L (tx_hash r) bchAddr = Some (Inr ancestor)"
    and fl: "floor2 L (fdiv (fsub currentHeight
                (ToNumber (StringToNumber L) (effective_height r ancestor))) (Fin 144)) = Inr ageDays"
    and um: "unit_merit L tokId (Obj r) = Inr m"
  shows "calc_elem L True currentHeight bchAddr tokId (Obj r) =
           Some (Inr (r\<lparr>age := Num ageDays, merit := Num (fmul m ageDays)\<rparr>))"
proof -
  from getParentAge_shape [OF walk]
  have "(if truthy_val ancestor then get_prop height ancestor else Inr (height r))
          = Inr (effective_height r ancestor)"
    by (auto simp: effective_height_def)
  with conf walk fl have "calc_age L currentHeight bchAddr (Obj r) = Some (Inr ageDays)"
    by (simp add: calc_age_def)
  with um show ?thesis
    by (simp add: calc_elem_def)
qed

theorem age_of_confirmed_utxo_witness:
  "\<not> strict_eq (height sample_utxo) (Num (Fin 0)) \<and>
   getParentAge ledger_lib (tx_hash sample_utxo) (Str ''addr'') = Some (Inr (Prim (Bool False))) \<and>
   floor2 ledger_lib (fdiv (fsub (Fin 665800) (Fin 665504)) (Fin 144)) = Inr js_2_05 \<and>
   unit_merit ledger_lib (Str ''T'') (Obj sample_utxo) = Inr (Fin 5000) \<and>
   calc_elem ledger_lib True (Fin 665800) (Str ''addr'') (Str ''T'') (Obj sample_utxo) =
     Some (Inr (sample_utxo\<lparr>age := Num js_2_05, merit := Num (Fin 10250)\<rparr>)) \<and>
   calcMerit ledger_lib (Array [Obj sample_utxo]) (Str ''addr'') (Str ''T'') =
     Some (Inr [sample_utxo\<lparr>age := Num js_2_05, merit := Num (Fin 10250)\<rparr>])"
proof -
  have conf: "\<not> strict_eq (height sample_utxo) (Num (Fin 0))"
    by (simp add: sample_utxo_def blank_def strict_eq_def)
  have walk: "getParentAge ledger_lib (tx_hash sample_utxo) (Str ''addr'') = Some (Inr (Prim (Bool False)))"
    by (simp add: sample_utxo_def blank_def walk_from_a)
  have fl0: "floor2 ledger_lib (fdiv (fsub (Fin 665800) (Fin 665504)) (Fin 144)) = Inr js_2_05"
    by (simp only: ledger_lib_simps age_scenario_B floor2_scenario_B)
  have "ToNumber (StringToNumber ledger_lib) (effective_height sample_utxo (Prim (Bool False)))
          = Fin 665504"
    by (simp add: effective_height_def sample_utxo_def blank_def)
  with fl0 have fl: "floor2 ledger_lib (fdiv (fsub (Fin 665800)
       (ToNumber (StringToNumber ledger_lib) (effective_height sample_utxo (Prim (Bool False)))))
       (Fin 144)) = Inr js_2_05"
    by (simp only:)
  have um: "unit_merit ledger_lib (Str ''T'') (Obj sample_utxo) = Inr (Fin 5000)"
    by (simp add: unit_merit_def sample_utxo_def blank_def)
  have elem: "calc_elem ledger_lib True (Fin 665800) (Str ''addr'') (Str ''T'') (Obj sample_utxo) =
     Some (Inr (sample_utxo\<lparr>age := Num js_2_05, merit := Num (Fin 10250)\<rparr>))"
    using age_of_confirmed_utxo [OF conf walk fl um] by (simp only: merit_scenario_B)
  have "calcMerit ledger_lib (Array [Obj sample_utxo]) (Str ''addr'') (Str ''T'') =
     Some (Inr [sample_utxo\<lparr>age := Num js_2_05, merit := Num (Fin 10250)\<rparr>])"
    by (simp add: calcMerit_def elem)
  with conf walk fl0 um elem show ?thesis by (intro conjI)
qed

section \<open>C4: the age of an unconfirmed UTXO\<close>

text \<open>
  Claim C4. For every UTXO whose own height is \<open>0\<close> (unconfirmed), the calculator
  assigns the age \<open>0\<close>, whether the walk found an ancestor or not, and whatever that
  ancestor's height is. Here \<open>r\<close> is a UTXO of height \<open>0\<close>. With aging off the pass
  of the loop over \<open>r\<close> returns \<open>r\<close> with the age \<open>0\<close> and its unit merit. With aging
  on, when the walk from its transaction returns \<open>ancestor\<close> (an object of any height,
  or \<^verbatim>\<open>false\<close>) and \<^verbatim>\<open>floor2\<close> returns on the quotient, the pass returns \<open>r\<close> with
  the age \<open>0\<close> and the merit unit merit times \<open>0\<close>. The witness is an unconfirmed UTXO
  whose walk finds an ancestor of height 600, with aging on.
\<close>

theorem unconfirmed_age_zero:
  assumes unconf: "height r = Num (Fin 0)"
    and walk: "ag \<Longrightarrow> getParentAge L (tx_hash r) bchAddr = Some (Inr ancestor)"
    and fl: "ag \<Longrightarrow> floor2 L (fdiv (fsub currentHeight
                (ToNumber (StringToNumber L) (effective_height r ancestor))) (Fin 144)) = Inr a"
  shows "calc_elem L ag currentHeight bchAddr tokId (Obj r) =
           Some (Inr (r\<lparr>age := Num (Fin 0),
                        merit := Num (if ag then fmul (unit_of L tokId r) (Fin 0)
                                      else unit_of L tokId r)\<rparr>))"
proof (cases ag)
  case False
  then show ?thesis
    by (simp add: calc_elem_def unit_merit_Obj)
next
  case True
  note w = walk [OF True] and f = fl [OF True]
  from getParentAge_shape [OF w]
  have "(if truthy_val ancestor then get_prop height ancestor else Inr (height r))
          = Inr (effective_height r ancestor)"
    by (auto simp: effective_height_def)
  moreover from unconf have "strict_eq (height r) (Num (Fin 0))"
    by (simp add: strict_eq_def)
  ultimately have "calc_age L currentHeight bchAddr (Obj r) = Some (Inr (Fin 0))"
    using w f by (simp add: calc_age_def)
  with True show ?thesis
    by (simp add: calc_elem_def unit_merit_Obj)
qed

theorem unconfirmed_age_zero_witness:
  "height unconfirmed_utxo = Num (Fin 0) \<and>
   getParentAge ledger_lib (tx_hash unconfirmed_utxo) (Str ''addr'') =
     Some (Inr (Obj ((entry ''a'' 600)\<lparr>tx_pos := Num (Fin 0)\<rparr>))) \<and>
   height ((entry ''a'' 600)\<lparr>tx_pos := Num (Fin 0)\<rparr>) = Num (Fin 600) \<and>
   (\<exists>a. floor2 ledger_lib (fdiv (fsub (Fin 665800) (ToNumber (StringToNumber ledger_lib)
           (effective_height unconfirmed_utxo (Obj ((entry ''a'' 600)\<lparr>tx_pos := Num (Fin 0)\<rparr>)))))
           (Fin 144)) = Inr a) \<and>
   calc_elem ledger_lib True (Fin 665800) (Str ''addr'') (Str ''T'') (Obj unconfirmed_utxo) =
     Some (Inr (unconfirmed_utxo\<lparr>age := Num (Fin 0), merit := Num (Fin 0)\<rparr>)) \<and>
   calcMerit ledger_lib (Array [Obj unconfirmed_utxo]) (Str ''addr'') (Str ''T'') =
     Some (Inr [unconfirmed_utxo\<lparr>age := Num (Fin 0), merit := Num (Fin 0)\<rparr>])"
proof -
  have h: "height unconfirmed_utxo = Num (Fin 0)"
    by (simp add: unconfirmed_utxo_def)
  have w: "getParentAge ledger_lib (tx_hash unconfirmed_utxo) (Str ''addr'') =
     Some (Inr (Obj ((entry ''a'' 600)\<lparr>tx_pos := Num (Fin 0)\<rparr>)))"
    by (simp add: unconfirmed_utxo_def walk_from_c)
  have ha: "height ((entry ''a'' 600)\<lparr>tx_pos := Num (Fin 0)\<rparr>) = Num (Fin 600)"
    by (simp add: entry_def)
  have ex: "\<exists>a. floor2 ledger_lib (fdiv (fsub (Fin 665800) (ToNumber (StringToNumber ledger_lib)
           (effective_height unconfirmed_utxo (Obj ((entry ''a'' 600)\<lparr>tx_pos := Num (Fin 0)\<rparr>)))))
           (Fin 144)) = Inr a"
    by (simp only: ledger_lib_simps floor2_spec_def) blast
  then obtain a where fl: "floor2 ledger_lib (fdiv (fsub (Fin 665800)
       (ToNumber (StringToNumber ledger_lib)
          (effective_height unconfirmed_utxo (Obj ((entry ''a'' 600)\<lparr>tx_pos := Num (Fin 0)\<rparr>)))))
       (Fin 144)) = Inr a" ..
  have m: "fmul (unit_of ledger_lib (Str ''T'') unconfirmed_utxo) (Fin 0) = Fin 0"
    by (simp add: unit_of_def unconfirmed_utxo_def sample_utxo_def blank_def)
  have elem: "calc_elem ledger_lib True (Fin 665800) (Str ''addr'') (Str ''T'') (Obj unconfirmed_utxo) =
     Some (Inr (unconfirmed_utxo\<lparr>age := Num (Fin 0), merit := Num (Fin 0)\<rparr>))"
    using unconfirmed_age_zero [where ag = True, OF h w fl] by (simp add: m)
  have "calcMerit ledger_lib (Array [Obj unconfirmed_utxo]) (Str ''addr'') (Str ''T'') =
     Some (Inr [unconfirmed_utxo\<lparr>age := Num (Fin 0), merit := Num (Fin 0)\<rparr>])"
    by (simp add: calcMerit_def elem)
  with h w ha ex elem show ?thesis by (intro conjI)
qed

section \<open>C9: an empty result ends the walk\<close>

text \<open>
  Claim C9. Whenever a resolution step of the walk yields the empty result
  (\<^verbatim>\<open>false\<close>), reading its \<^verbatim>\<open>tx_hash\<close> gives \<^verbatim>\<open>undefined\<close> and no error, the
  loop ends, and the walk returns the parent it knew so far (\<^verbatim>\<open>false\<close> if it never
  found one).
\<close>

theorem empty_result_ends_walk:
  assumes "truthy txid" and "findTokenParent L txid addr = Inr (Prim (Bool False))"
  shows "get_prop tx_hash (Prim (Bool False)) = Inr Undefined \<and>
         getParentAge_loop L txid addr oldestUtxo = Some (Inr oldestUtxo)"
  using assms
  by (simp add: getParentAge_loop.simps [of L txid] getParentAge_loop.simps [of L Undefined])

theorem empty_result_ends_walk_witness:
  "truthy (Str ''a'') \<and>
   findTokenParent ledger_lib (Str ''a'') (Str ''addr'') = Inr (Prim (Bool False)) \<and>
   get_prop tx_hash (Prim (Bool False)) = Inr Undefined \<and>
   getParentAge_loop ledger_lib (Str ''a'') (Str ''addr'') (Obj (entry ''a'' 600)) =
     Some (Inr (Obj (entry ''a'' 600)))"
  using empty_result_ends_walk [of "Str ''a''" ledger_lib "Str ''addr''" "Obj (entry ''a'' 600)"]
  by (simp add: parent_of_a)

section \<open>C10: what \<^verbatim>\<open>calcMerit\<close> leaves unchanged\<close>

text \<open>
  Claim C10. Whenever \<^verbatim>\<open>calcMerit\<close> returns, it returns a sequence of the length of
  its input, holding the records of the input in their order; each record differs from
  its input record in the fields \<open>age\<close> and \<open>merit\<close> at most, and every other field of
  every record is unchanged.
\<close>

theorem calcMerit_frame:
  assumes "calcMerit L (Array elems) address tokId = Some (Inr out)"
  shows "length out = length elems \<and>
         (\<forall>i < length elems. \<exists>r. elems ! i = Obj r \<and>
             out ! i = r\<lparr>age := age (out ! i), merit := merit (out ! i)\<rparr>)"
proof -
  from assms obtain e cur bchAddr where
    "calc_loop L (aging e) cur bchAddr tokId elems = Some (Inr out)"
    by (rule calcMerit_ArrayD)
  then have "list_all2 (\<lambda>elem u. \<exists>r. elem = Obj r \<and> u = r\<lparr>age := age u, merit := merit u\<rparr>) elems out"
    by (rule calc_loop_frame)
  then show ?thesis
    by (auto simp: list_all2_conv_all_nth)
qed

theorem calcMerit_frame_witness:
  "calcMerit test_lib (Array [Obj sample_utxo, Obj (coin 1)]) (Str ''addr'') (Str ''T'') =
     Some (Inr [sample_utxo\<lparr>age := Num (Fin 0), merit := Num (Fin 5000)\<rparr>,
                (coin 1)\<lparr>age := Num (Fin 0), merit := Num NaN\<rparr>]) \<and>
   length [sample_utxo\<lparr>age := Num (Fin 0), merit := Num (Fin 5000)\<rparr>,
           (coin 1)\<lparr>age := Num (Fin 0), merit := Num NaN\<rparr>] = length [Obj sample_utxo, Obj (coin 1)] \<and>
   (\<exists>r. [Obj sample_utxo, Obj (coin 1)] ! 1 = Obj r \<and>
        (coin 1)\<lparr>age := Num (Fin 0), merit := Num NaN\<rparr> = r\<lparr>age := Num (Fin 0), merit := Num NaN\<rparr>)"
proof -
  have ev: "calcMerit test_lib (Array [Obj sample_utxo, Obj (coin 1)]) (Str ''addr'') (Str ''T'') =
     Some (Inr [sample_utxo\<lparr>age := Num (Fin 0), merit := Num (Fin 5000)\<rparr>,
                (coin 1)\<lparr>age := Num (Fin 0), merit := Num NaN\<rparr>])"
    by (simp add: calcMerit_def calc_elem_def unit_merit_def sample_utxo_def coin_def blank_def)
  from calcMerit_frame [OF ev] show ?thesis
    by (simp add: ev)
qed

section \<open>C5: the checks of \<^verbatim>\<open>agMerit\<close>\<close>

lemma getTokenUtxos_InrD:
  assumes "getTokenUtxos L address tokId = Inr us"
  obtains addr utxos e where "toCashAddress L address = Inr addr"
    and "getUtxos L addr = Inr utxos" and "env L = Some e"
proof -
  from assms obtain addr where a: "toCashAddress L address = Inr addr"
    by (cases "toCashAddress L address") (simp_all add: getTokenUtxos_def)
  with assms obtain utxos where u: "getUtxos L addr = Inr utxos"
    by (cases "getUtxos L addr") (simp_all add: getTokenUtxos_def)
  with assms a obtain e where "env L = Some e"
    by (cases "env L") (simp_all add: getTokenUtxos_def)
  with a u that show ?thesis by blast
qed

text \<open>
  Claim C5. \<^verbatim>\<open>agMerit\<close> fails with its validation error (\<^verbatim>\<open>an address must be
  specified!\<close>) for every empty address (every falsy one: \<^verbatim>\<open>''\<close>, \<^verbatim>\<open>undefined\<close>,
  \<^verbatim>\<open>null\<close>), and it returns exactly \<open>0\<close> for every address whose selected UTXO set is
  empty (when, with aging on, the chain height is available).
\<close>

theorem agMerit_checks:
  "(\<not> truthy address \<longrightarrow>
      agMerit L address tokId = Some (Inl (Error ''an address must be specified!''))) \<and>
   (truthy address' \<longrightarrow> getTokenUtxos L address' tokId = Inr [] \<longrightarrow>
      (\<forall>e. env L = Some e \<longrightarrow> aging e \<longrightarrow> (\<exists>cur. getBlockCount L = Inr cur)) \<longrightarrow>
      agMerit L address' tokId = Some (Inr (Num (Fin 0))))"
proof (intro conjI impI)
  assume "\<not> truthy address"
  then show "agMerit L address tokId = Some (Inl (Error ''an address must be specified!''))"
    by (simp add: agMerit_def)
next
  assume t: "truthy address'" and sel: "getTokenUtxos L address' tokId = Inr []"
    and h: "\<forall>e. env L = Some e \<longrightarrow> aging e \<longrightarrow> (\<exists>cur. getBlockCount L = Inr cur)"
  from sel obtain addr utxos e where a: "toCashAddress L address' = Inr addr" and e: "env L = Some e"
    by (rule getTokenUtxos_InrD)
  from h e obtain cur where "(if aging e then getBlockCount L else Inr (Fin 0)) = Inr cur"
    by (cases "aging e") auto
  with a e have "calcMerit L (Array []) address' tokId = Some (Inr [])"
    by (simp add: calcMerit_def)
  with t sel e show "agMerit L address' tokId = Some (Inr (Num (Fin 0)))"
    by (simp add: agMerit_def sum_merit_def)
qed

theorem agMerit_checks_witness:
  "\<not> truthy (Str '''') \<and>
   agMerit test_lib (Str '''') (Str ''T'') = Some (Inl (Error ''an address must be specified!'')) \<and>
   truthy (Str ''addr'') \<and> getTokenUtxos test_lib (Str ''addr'') (Str ''T'') = Inr [] \<and>
   agMerit test_lib (Str ''addr'') (Str ''T'') = Some (Inr (Num (Fin 0)))"
proof -
  have sel: "getTokenUtxos test_lib (Str ''addr'') (Str ''T'') = Inr []"
    by (simp add: getTokenUtxos_def)
  from agMerit_checks [of "Str ''''" test_lib "Str ''T''" "Str ''addr''"] sel
  show ?thesis by simp
qed

section \<open>C7: what \<^verbatim>\<open>calcMerit\<close> rejects\<close>

text \<open>
  Claim C7 says that \<^verbatim>\<open>calcMerit\<close> rejects every sequence that contains a malformed
  UTXO record. It does not: the only check is \<^verbatim>\<open>Array.isArray\<close> (line 100). On an
  instance with aging off, the array that holds the one object \<^verbatim>\<open>{}\<close> is processed,
  and the result is that object with the age \<open>0\<close> and the merit \<open>NaN\<close>.
\<close>

theorem malformed_record_accepted:
  "\<not> wellformed_utxo blank \<and>
   calcMerit test_lib (Array [Obj blank]) (Str ''addr'') Undefined =
     Some (Inr [blank\<lparr>age := Num (Fin 0), merit := Num NaN\<rparr>])"
  by (simp add: wellformed_utxo_def calcMerit_def calc_elem_def unit_merit_def blank_def)

text \<open>
  Claim C7, amended. \<^verbatim>\<open>calcMerit\<close> fails with its validation error (\<^verbatim>\<open>Input
  hydratedUtxo must be an array\<close>) for every argument that is not an array. It does not
  validate the elements of an array: on an instance with an \<^verbatim>\<open>env\<close> and aging off,
  and an address that \<^verbatim>\<open>toCashAddress\<close> accepts, every array of objects is processed,
  whatever fields the objects have or lack, and each object is returned with the age
  \<open>0\<close> and its unit merit; and, with aging on or off, whenever \<^verbatim>\<open>calcMerit\<close> returns,
  every element of the array was an object.
\<close>

theorem calcMerit_rejects_non_arrays:
  "calcMerit L (NotArray v) address tokId =
     Some (Inl (Error ''Input hydratedUtxo must be an array'')) \<and>
   (toCashAddress L address = Inr bchAddr \<longrightarrow> env L = Some e \<longrightarrow> \<not> aging e \<longrightarrow>
      calcMerit L (Array (map Obj rs)) address tokId =
        Some (Inr (map (\<lambda>r. r\<lparr>age := Num (Fin 0), merit := Num (unit_of L tokId r)\<rparr>) rs))) \<and>
   (calcMerit L (Array elems) address tokId = Some (Inr out) \<longrightarrow>
      (\<forall>x \<in> set elems. \<exists>r. x = Obj r))"
proof (intro conjI impI ballI)
  show "calcMerit L (NotArray v) address tokId =
     Some (Inl (Error ''Input hydratedUtxo must be an array''))"
    by (simp add: calcMerit_def)
next
  assume "toCashAddress L address = Inr bchAddr" and "env L = Some e" and "\<not> aging e"
  then show "calcMerit L (Array (map Obj rs)) address tokId =
        Some (Inr (map (\<lambda>r. r\<lparr>age := Num (Fin 0), merit := Num (unit_of L tokId r)\<rparr>) rs))"
    by (simp add: calcMerit_def calc_loop_no_aging)
next
  fix x
  assume ret: "calcMerit L (Array elems) address tokId = Some (Inr out)" and x: "x \<in> set elems"
  from ret obtain e cur bchAddr where
    "calc_loop L (aging e) cur bchAddr tokId elems = Some (Inr out)"
    by (rule calcMerit_ArrayD)
  then have "list_all2 (\<lambda>elem u. \<exists>r. elem = Obj r \<and> u = r\<lparr>age := age u, merit := merit u\<rparr>) elems out"
    by (rule calc_loop_frame)
  with x show "\<exists>r. x = Obj r"
    by (auto simp: list_all2_conv_all_nth in_set_conv_nth)
qed

theorem calcMerit_rejects_non_arrays_witness:
  "calcMerit test_lib (NotArray (Obj sample_utxo)) (Str ''addr'') (Str ''T'') =
     Some (Inl (Error ''Input hydratedUtxo must be an array'')) \<and>
   toCashAddress test_lib (Str ''addr'') = Inr (Str ''addr'') \<and>
   env test_lib = Some \<lparr>MERIT_AGE = Undefined, VERBOSE_LOG = Undefined\<rparr> \<and>
   \<not> aging \<lparr>MERIT_AGE = Undefined, VERBOSE_LOG = Undefined\<rparr> \<and>
   calcMerit test_lib (Array [Obj sample_utxo, Obj blank]) (Str ''addr'') (Str ''T'') =
     Some (Inr [sample_utxo\<lparr>age := Num (Fin 0), merit := Num (Fin 5000)\<rparr>,
                blank\<lparr>age := Num (Fin 0), merit := Num NaN\<rparr>]) \<and>
   (\<exists>r. Obj sample_utxo = Obj r) \<and> (\<exists>r. Obj blank = Obj r)"
proof -
  have a: "toCashAddress test_lib (Str ''addr'') = Inr (Str ''addr'')" by simp
  have e: "env test_lib = Some \<lparr>MERIT_AGE = Undefined, VERBOSE_LOG = Undefined\<rparr>" by simp
  have off: "\<not> aging \<lparr>MERIT_AGE = Undefined, VERBOSE_LOG = Undefined\<rparr>"
    by (simp add: aging_def strict_eq_def)
  have u1: "unit_of test_lib (Str ''T'') sample_utxo = Fin 5000"
    by (simp add: unit_of_def sample_utxo_def blank_def)
  have u2: "unit_of test_lib (Str ''T'') blank = NaN"
    by (simp add: unit_of_def blank_def)
  note t = calcMerit_rejects_non_arrays [of test_lib "Obj sample_utxo" "Str ''addr''" "Str ''T''"
      "Str ''addr''" "\<lparr>MERIT_AGE = Undefined, VERBOSE_LOG = Undefined\<rparr>" "[sample_utxo, blank]"
      "[Obj sample_utxo, Obj blank]"
      "[sample_utxo\<lparr>age := Num (Fin 0), merit := Num (Fin 5000)\<rparr>,
        blank\<lparr>age := Num (Fin 0), merit := Num NaN\<rparr>]"]
  from t have c1: "calcMerit test_lib (NotArray (Obj sample_utxo)) (Str ''addr'') (Str ''T'') =
     Some (Inl (Error ''Input hydratedUtxo must be an array''))" by (rule conjunct1)
  from t [THEN conjunct2, THEN conjunct1, THEN mp, OF a, THEN mp, OF e, THEN mp, OF off]
  have c2: "calcMerit test_lib (Array [Obj sample_utxo, Obj blank]) (Str ''addr'') (Str ''T'') =
     Some (Inr [sample_utxo\<lparr>age := Num (Fin 0), merit := Num (Fin 5000)\<rparr>,
                blank\<lparr>age := Num (Fin 0), merit := Num NaN\<rparr>])"
    by (simp add: u1 u2)
  from t [THEN conjunct2, THEN conjunct2, THEN mp, OF c2]
  have c3: "(\<exists>r. Obj sample_utxo = Obj r) \<and> (\<exists>r. Obj blank = Obj r)" by simp
  from c1 a e off c2 c3 show ?thesis by (intro conjI) simp_all
qed

section \<open>C1: the aggregate without aging\<close>

lemma js_plus_Num [simp]: "js_plus s2n n2s (Num a) (Num b) = Num (fadd a b)"
  by (simp add: js_plus_def)

lemma foldl_js_plus:
  "foldl (\<lambda>acc elem. js_plus s2n n2s acc (merit elem)) (Num a)
     (map (\<lambda>u. u\<lparr>age := x, merit := Num (f u)\<rparr>) us) = Num (foldl fadd a (map f us))"
  by (induction us arbitrary: a) simp_all

lemma agMerit_no_aging:
  assumes "truthy address" and "getTokenUtxos L address tokId = Inr utxos"
    and "env L = Some e" and "\<not> aging e"
  shows "agMerit L address tokId = Some (Inr (Num (merit_sum L tokId utxos)))"
proof -
  from assms(2) obtain addr where "toCashAddress L address = Inr addr"
    by (rule getTokenUtxos_InrD)
  with assms(3,4) have "calcMerit L (Array (map Obj utxos)) address tokId =
      Some (Inr (map (\<lambda>u. u\<lparr>age := Num (Fin 0), merit := Num (unit_of L tokId u)\<rparr>) utxos))"
    by (simp add: calcMerit_def calc_loop_no_aging)
  with assms show ?thesis
    by (simp add: agMerit_def sum_merit_def merit_sum_def foldl_js_plus)
qed

text \<open>Sums of natural numbers below \<open>2 ^ 53\<close> are exact.\<close>

lemma is_nat_numberD: "is_nat_number x \<Longrightarrow> x = Fin (of_nat (nat_of_number x))"
  by (cases x) (simp_all add: is_nat_number_def nat_of_number_def)

lemma fadd_of_nat:
  "a + b < 2 ^ 53 \<Longrightarrow> fadd (Fin (of_nat a)) (Fin (of_nat b)) = Fin (of_nat (a + b))"
  using round_double_of_nat [of "a + b"] by simp

lemma foldl_fadd_exact:
  assumes "\<forall>x \<in> set xs. is_nat_number x"
    and "a + sum_list (map nat_of_number xs) < 2 ^ 53"
  shows "foldl fadd (Fin (of_nat a)) xs = Fin (of_nat (a + sum_list (map nat_of_number xs)))"
  using assms
proof (induction xs arbitrary: a)
  case Nil
  then show ?case by simp
next
  case (Cons x xs)
  from Cons.prems(1) have x: "x = Fin (of_nat (nat_of_number x))"
    by (simp add: is_nat_numberD)
  from Cons.prems(2) have small: "a + nat_of_number x < 2 ^ 53" by simp
  have "foldl fadd (Fin (of_nat a)) (x # xs) = foldl fadd (fadd (Fin (of_nat a)) x) xs"
    by simp
  also have "fadd (Fin (of_nat a)) x = Fin (of_nat (a + nat_of_number x))"
    using fadd_of_nat [OF small] x by simp
  also have "foldl fadd (Fin (of_nat (a + nat_of_number x))) xs =
      Fin (of_nat (a + nat_of_number x + sum_list (map nat_of_number xs)))"
    using Cons.prems by (intro Cons.IH) (simp_all add: add.assoc)
  finally show ?case by (simp add: add.assoc)
qed

lemma merit_sum_exact:
  assumes "\<forall>u \<in> set utxos. is_nat_number (unit_of L tokId u)"
    and "sum_list (map (\<lambda>u. nat_of_number (unit_of L tokId u)) utxos) < 2 ^ 53"
  shows "merit_sum L tokId utxos =
           Fin (of_nat (sum_list (map (\<lambda>u. nat_of_number (unit_of L tokId u)) utxos)))"
  using foldl_fadd_exact [of "map (unit_of L tokId) utxos" 0] assms
  by (simp add: merit_sum_def comp_def)

lemma sum_list_perm:
  fixes g :: "'a \<Rightarrow> nat"
  assumes "mset xs = mset ys"
  shows "sum_list (map g xs) = sum_list (map g ys)"
proof -
  have "sum_list (map g xs) = sum_mset (image_mset g (mset xs))"
    by (simp add: sum_mset_sum_list [symmetric])
  also have "\<dots> = sum_mset (image_mset g (mset ys))" by (simp add: assms)
  also have "\<dots> = sum_list (map g ys)" by (simp add: sum_mset_sum_list [symmetric])
  finally show ?thesis .
qed

text \<open>
  Claim C1 says that the aggregate does not depend on the order of the UTXOs. The sum
  is a sum of Numbers, added from the left, and each addition rounds: the native UTXOs
  of 0.1, 0.2 and 0.3 coins give 0.6000000000000001 in this order and 0.6 in the
  reverse order.
\<close>

theorem aggregate_depends_on_order:
  "mset (rev coins) = mset coins \<and>
   agMerit (wallet_lib coins []) (Str ''addr'') Undefined =
     Some (Inr (Num (Fin (1351079888211149 / 2251799813685248)))) \<and>
   agMerit (wallet_lib (rev coins) []) (Str ''addr'') Undefined =
     Some (Inr (Num (Fin (5404319552844595 / 9007199254740992)))) \<and>
   agMerit (wallet_lib coins []) (Str ''addr'') Undefined \<noteq>
     agMerit (wallet_lib (rev coins) []) (Str ''addr'') Undefined"
proof -
  have sel: "getTokenUtxos (wallet_lib native []) (Str ''addr'') Undefined =
      Inr (filter (\<lambda>elem. \<not> truthy (tokenId elem)) native)" for native
    by (simp add: getTokenUtxos_def)
  have units: "unit_of (wallet_lib native []) Undefined (coin 10000000) = Fin (3602879701896397 / 36028797018963968)"
    "unit_of (wallet_lib native []) Undefined (coin 20000000) = Fin (3602879701896397 / 18014398509481984)"
    "unit_of (wallet_lib native []) Undefined (coin 30000000) = Fin (5404319552844595 / 18014398509481984)"
    for native
    by (simp_all add: unit_of_def coin_def dbl_tenth dbl_fifth dbl_three_tenths)
  have fwd: "merit_sum (wallet_lib coins []) Undefined coins = Fin (1351079888211149 / 2251799813685248)"
    by (simp add: merit_sum_def coins_def units fwd_sum1 fwd_sum2 fwd_sum3)
  have bwd: "merit_sum (wallet_lib (rev coins) []) Undefined (rev coins) = Fin (5404319552844595 / 9007199254740992)"
    by (simp add: merit_sum_def coins_def units rev_sum1 rev_sum2 rev_sum3)
  have keep: "filter (\<lambda>elem. \<not> truthy (tokenId elem)) coins = coins"
    by (simp add: coins_def coin_def blank_def)
  then have keep': "filter (\<lambda>elem. \<not> truthy (tokenId elem)) (rev coins) = rev coins"
    by (simp add: rev_filter [symmetric])
  have a: "agMerit (wallet_lib coins []) (Str ''addr'') Undefined =
     Some (Inr (Num (Fin (1351079888211149 / 2251799813685248))))"
    using agMerit_no_aging [of "Str ''addr''" "wallet_lib coins []" Undefined coins]
    by (simp add: sel keep fwd)
  have b: "agMerit (wallet_lib (rev coins) []) (Str ''addr'') Undefined =
     Some (Inr (Num (Fin (5404319552844595 / 9007199254740992))))"
    using agMerit_no_aging [of "Str ''addr''" "wallet_lib (rev coins) []" Undefined "rev coins"]
    by (simp add: sel keep' bwd)
  show ?thesis by (simp add: a b)
qed

text \<open>
  Claim C1, amended. For every sequence of selected UTXOs, when aging is disabled, the
  aggregate \<^verbatim>\<open>agMerit\<close> returns is the sum of the unit merits (the token quantity when
  a token id is selected, the native value divided by 100000000 otherwise), added from
  the left in the order of the sequence, each addition rounded to a Number. When every
  unit merit is a natural number and their total is below \<open>2 ^ 53\<close>, the aggregate is
  that total, and it is the same for every order of the UTXOs.
\<close>

theorem aggregate_without_aging:
  assumes "truthy address" and "getTokenUtxos L address tokId = Inr utxos"
    and "env L = Some e" and "\<not> aging e"
  shows "agMerit L address tokId = Some (Inr (Num (merit_sum L tokId utxos))) \<and>
    ((\<forall>u \<in> set utxos. is_nat_number (unit_of L tokId u)) \<longrightarrow>
     sum_list (map (\<lambda>u. nat_of_number (unit_of L tokId u)) utxos) < 2 ^ 53 \<longrightarrow>
       merit_sum L tokId utxos =
         Fin (of_nat (sum_list (map (\<lambda>u. nat_of_number (unit_of L tokId u)) utxos))) \<and>
       (\<forall>utxos'. mset utxos' = mset utxos \<longrightarrow>
          merit_sum L tokId utxos' = merit_sum L tokId utxos))"
proof (intro conjI impI allI)
  show "agMerit L address tokId = Some (Inr (Num (merit_sum L tokId utxos)))"
    using assms by (rule agMerit_no_aging)
next
  assume nat: "\<forall>u \<in> set utxos. is_nat_number (unit_of L tokId u)"
    and small: "sum_list (map (\<lambda>u. nat_of_number (unit_of L tokId u)) utxos) < 2 ^ 53"
  then show "merit_sum L tokId utxos =
      Fin (of_nat (sum_list (map (\<lambda>u. nat_of_number (unit_of L tokId u)) utxos)))"
    by (rule merit_sum_exact)
next
  fix utxos'
  assume nat: "\<forall>u \<in> set utxos. is_nat_number (unit_of L tokId u)"
    and small: "sum_list (map (\<lambda>u. nat_of_number (unit_of L tokId u)) utxos) < 2 ^ 53"
    and perm: "mset utxos' = mset utxos"
  from perm have same: "sum_list (map (\<lambda>u. nat_of_number (unit_of L tokId u)) utxos') =
      sum_list (map (\<lambda>u. nat_of_number (unit_of L tokId u)) utxos)"
    by (rule sum_list_perm)
  from perm have "set utxos' = set utxos" by (rule mset_eq_setD)
  with nat have nat': "\<forall>u \<in> set utxos'. is_nat_number (unit_of L tokId u)" by simp
  from small same
  have small': "sum_list (map (\<lambda>u. nat_of_number (unit_of L tokId u)) utxos') < 2 ^ 53" by simp
  show "merit_sum L tokId utxos' = merit_sum L tokId utxos"
    by (simp only: merit_sum_exact [OF nat small] merit_sum_exact [OF nat' small'] same)
qed

theorem aggregate_without_aging_witness:
  "truthy (Str ''addr'') \<and>
   getTokenUtxos (wallet_lib [] token_utxos) (Str ''addr'') (Str ''T'') = Inr token_utxos \<and>
   agMerit (wallet_lib [] token_utxos) (Str ''addr'') (Str ''T'') = Some (Inr (Num (Fin 5250))) \<and>
   merit_sum (wallet_lib [] token_utxos) (Str ''T'') token_utxos = Fin 5250 \<and>
   merit_sum (wallet_lib [] token_utxos) (Str ''T'') (rev token_utxos) = Fin 5250"
proof -
  let ?W = "wallet_lib [] token_utxos"
  have t: "truthy (Str ''addr'')" by simp
  have sel: "getTokenUtxos ?W (Str ''addr'') (Str ''T'') = Inr token_utxos"
    by (simp add: getTokenUtxos_def token_utxos_def sample_utxo_def blank_def)
  have nat: "\<forall>u \<in> set token_utxos. is_nat_number (unit_of ?W (Str ''T'') u)"
    by (simp add: unit_of_def token_utxos_def sample_utxo_def blank_def is_nat_number_def)
  have total: "sum_list (map (\<lambda>u. nat_of_number (unit_of ?W (Str ''T'') u)) token_utxos) = 5250"
    by (simp add: unit_of_def token_utxos_def sample_utxo_def blank_def nat_of_number_def)
  have small: "sum_list (map (\<lambda>u. nat_of_number (unit_of ?W (Str ''T'') u)) token_utxos) < 2 ^ 53"
    by (simp only: total) simp
  have e: "env ?W = Some \<lparr>MERIT_AGE = Undefined, VERBOSE_LOG = Undefined\<rparr>" by simp
  have off: "\<not> aging \<lparr>MERIT_AGE = Undefined, VERBOSE_LOG = Undefined\<rparr>" by simp
  note main = aggregate_without_aging [OF t sel e off]
  note exact = main [THEN conjunct2, THEN mp, OF nat, THEN mp, OF small]
  have ex: "merit_sum ?W (Str ''T'') token_utxos = Fin 5250"
    using exact [THEN conjunct1] by (simp only: total) simp
  have "merit_sum ?W (Str ''T'') (rev token_utxos) = merit_sum ?W (Str ''T'') token_utxos"
    by (rule exact [THEN conjunct2, rule_format]) simp
  with ex have rv: "merit_sum ?W (Str ''T'') (rev token_utxos) = Fin 5250" by (simp only:)
  have ag: "agMerit ?W (Str ''addr'') (Str ''T'') = Some (Inr (Num (Fin 5250)))"
    using main [THEN conjunct1] by (simp only: ex)
  from t sel ag ex rv show ?thesis by (intro conjI)
qed


section \<open>C6: the selection of UTXOs\<close>

lemma token_filter_eq:
  assumes "\<forall>u \<in> set xs. truthy (tokenId u) \<longrightarrow> is_Str (tokenId u)"
  shows "token_filter n2s tokId xs =
           Inr (filter (\<lambda>u. token_matches (ToString n2s tokId) (tokenId u)) xs)"
  using assms
proof (induction xs)
  case Nil
  then show ?case by simp
next
  case (Cons u xs)
  then have IH: "token_filter n2s tokId xs =
           Inr (filter (\<lambda>u. token_matches (ToString n2s tokId) (tokenId u)) xs)"
    by simp
  show ?case
  proof (cases "tokenId u")
    case (Str s)
    with IH show ?thesis by simp
  next
    case Undefined
    with IH show ?thesis by simp
  next
    case Null
    with IH show ?thesis by simp
  next
    case (Bool b)
    with Cons.prems have "\<not> b" by auto
    with Bool IH show ?thesis by simp
  next
    case (Num n)
    with Cons.prems have "\<not> truthy (Num n)" by auto
    with Num IH show ?thesis by simp
  qed
qed

text \<open>
  Claim C6. For every address and UTXO set, when a token id is given (a truthy one),
  \<^verbatim>\<open>getTokenUtxos\<close> returns exactly the token UTXOs whose token id matches the
  requested one, substring containment accepted; when no token id is given, it returns
  exactly the native UTXOs whose token id is falsy, which are those that have no token
  id at all when a token id, where present, is a non-empty string. The address has
  been normalised, the wallet has returned the UTXO set, the instance has an
  \<^verbatim>\<open>env\<close>, and the token ids of the token UTXOs are strings where they are truthy.
\<close>

theorem utxo_selection:
  assumes "toCashAddress L address = Inr addr" and "getUtxos L addr = Inr utxos"
    and "env L = Some e"
  shows "(truthy tokId \<longrightarrow>
            (\<forall>u \<in> set (slp_type1_tokens utxos). truthy (tokenId u) \<longrightarrow> is_Str (tokenId u)) \<longrightarrow>
            getTokenUtxos L address tokId =
              Inr (filter (\<lambda>u. token_matches (ToString (NumberToString L) tokId) (tokenId u))
                     (slp_type1_tokens utxos))) \<and>
         (\<not> truthy tokId \<longrightarrow>
            getTokenUtxos L address tokId =
              Inr (filter (\<lambda>u. \<not> truthy (tokenId u)) (bchUtxos utxos)) \<and>
            ((\<forall>u \<in> set (bchUtxos utxos). tokenId u = Undefined \<or> truthy (tokenId u)) \<longrightarrow>
               getTokenUtxos L address tokId =
                 Inr (filter (\<lambda>u. tokenId u = Undefined) (bchUtxos utxos))))"
proof (intro conjI impI)
  assume "truthy tokId"
    and "\<forall>u \<in> set (slp_type1_tokens utxos). truthy (tokenId u) \<longrightarrow> is_Str (tokenId u)"
  with assms show "getTokenUtxos L address tokId =
      Inr (filter (\<lambda>u. token_matches (ToString (NumberToString L) tokId) (tokenId u))
             (slp_type1_tokens utxos))"
    by (simp add: getTokenUtxos_def token_filter_eq)
next
  assume "\<not> truthy tokId"
  with assms show "getTokenUtxos L address tokId =
      Inr (filter (\<lambda>u. \<not> truthy (tokenId u)) (bchUtxos utxos))"
    by (simp add: getTokenUtxos_def)
next
  assume f: "\<not> truthy tokId"
    and m: "\<forall>u \<in> set (bchUtxos utxos). tokenId u = Undefined \<or> truthy (tokenId u)"
  from m have "filter (\<lambda>u. \<not> truthy (tokenId u)) (bchUtxos utxos) =
      filter (\<lambda>u. tokenId u = Undefined) (bchUtxos utxos)"
    by (intro filter_cong) auto
  with assms f show "getTokenUtxos L address tokId =
      Inr (filter (\<lambda>u. tokenId u = Undefined) (bchUtxos utxos))"
    by (simp add: getTokenUtxos_def)
qed

theorem utxo_selection_witness:
  "toCashAddress (wallet_lib mixed_utxos mixed_utxos) (Str ''addr'') = Inr (Str ''addr'') \<and>
   getUtxos (wallet_lib mixed_utxos mixed_utxos) (Str ''addr'') =
     Inr \<lparr>bchUtxos = mixed_utxos, slp_type1_tokens = mixed_utxos\<rparr> \<and>
   truthy (Str ''T'') \<and> \<not> truthy Undefined \<and>
   getTokenUtxos (wallet_lib mixed_utxos mixed_utxos) (Str ''addr'') (Str ''T'') =
     Inr [sample_utxo, sample_utxo\<lparr>tokenId := Str ''xTy''\<rparr>] \<and>
   getTokenUtxos (wallet_lib mixed_utxos mixed_utxos) (Str ''addr'') Undefined = Inr [coin 1]"
proof -
  let ?W = "wallet_lib mixed_utxos mixed_utxos"
  let ?U = "\<lparr>bchUtxos = mixed_utxos, slp_type1_tokens = mixed_utxos\<rparr>"
  have a: "toCashAddress ?W (Str ''addr'') = Inr (Str ''addr'')" by simp
  have u: "getUtxos ?W (Str ''addr'') = Inr ?U" by simp
  have e: "env ?W = Some \<lparr>MERIT_AGE = Undefined, VERBOSE_LOG = Undefined\<rparr>" by simp
  have strs: "\<forall>u \<in> set (slp_type1_tokens ?U). truthy (tokenId u) \<longrightarrow> is_Str (tokenId u)"
    by (simp add: mixed_utxos_def sample_utxo_def coin_def blank_def)
  have ids: "\<forall>u \<in> set (bchUtxos ?U). tokenId u = Undefined \<or> truthy (tokenId u)"
    by (simp add: mixed_utxos_def sample_utxo_def coin_def blank_def)
  have sub: "sublist ''T'' ''T''" "sublist ''T'' ''xTy''" "\<not> sublist ''T'' ''U''"
    by (simp_all add: sublist_Cons_right)
  note main = utxo_selection [OF a u e]
  have tok: "getTokenUtxos ?W (Str ''addr'') (Str ''T'') =
      Inr (filter (\<lambda>u. token_matches (ToString (NumberToString ?W) (Str ''T'')) (tokenId u))
             (slp_type1_tokens ?U))"
    by (rule main [THEN conjunct1, THEN mp, THEN mp, OF _ strs]) simp
  have nat: "getTokenUtxos ?W (Str ''addr'') Undefined =
      Inr (filter (\<lambda>u. tokenId u = Undefined) (bchUtxos ?U))"
    by (rule main [THEN conjunct2, THEN mp, THEN conjunct2, THEN mp, OF _ ids]) simp
  have "getTokenUtxos ?W (Str ''addr'') (Str ''T'') =
      Inr [sample_utxo, sample_utxo\<lparr>tokenId := Str ''xTy''\<rparr>]"
    unfolding tok by (simp add: mixed_utxos_def sample_utxo_def coin_def blank_def sub)
  moreover have "getTokenUtxos ?W (Str ''addr'') Undefined = Inr [coin 1]"
    unfolding nat by (simp add: mixed_utxos_def sample_utxo_def coin_def blank_def)
  ultimately show ?thesis using a u by simp
qed

section \<open>C8: the walk on an acyclic ancestry graph\<close>

lemma deepest_simps [simp]:
  "deepest [] = Prim (Bool False)"
  "deepest (ps @ [p]) = Obj p"
  by (simp_all add: deepest_def)

lemma deepest_Cons: "deepest (p # ps) = (if ps = [] then Obj p else deepest ps)"
  by (cases ps rule: rev_cases) (simp_all add: deepest_def)

lemma fuel_mono_le:
  assumes "getParentAge_fuel n L txid addr oldestUtxo = Some r" and "n \<le> n'"
  shows "getParentAge_fuel n' L txid addr oldestUtxo = Some r"
  using assms(2,1)
proof (induction n' rule: dec_induct)
  case base
  then show ?case .
next
  case (step k)
  then show ?case by (intro fuel_mono) simp
qed

text \<open>
  The walk from a transaction of depth \<open>d\<close>, with \<open>oldestUtxo\<close> the parent known so
  far: it resolves a chain of parents, ends within \<open>d\<close> calls, and returns the last
  parent of the chain, or \<open>oldestUtxo\<close> when the chain has none.
\<close>

lemma walk_by_depth:
  assumes ok: "\<forall>t. truthy t \<longrightarrow> (\<exists>v. findTokenParent L t addr = Inr v)"
    and acyclic: "\<forall>t p. truthy t \<longrightarrow> findTokenParent L t addr = Inr (Obj p) \<longrightarrow>
                    truthy (tx_hash p) \<longrightarrow> depth (tx_hash p) < depth t"
    and pos: "\<forall>t. truthy t \<longrightarrow> 0 < depth t"
  shows "truthy txid \<Longrightarrow> \<exists>ps. ancestry_chain L addr txid ps \<and>
           getParentAge_fuel (depth txid) L txid addr oldestUtxo =
             Some (Inr (if ps = [] then oldestUtxo else deepest ps))"
proof (induction "depth txid" arbitrary: txid oldestUtxo rule: less_induct)
  case less
  note t = \<open>truthy txid\<close>
  from pos t obtain m where d: "depth txid = Suc m" by (cases "depth txid") auto
  from ok t obtain v where ftp: "findTokenParent L txid addr = Inr v" by blast
  from findTokenParent_shape [OF ftp] consider "v = Prim (Bool False)" | p where "v = Obj p"
    by blast
  then show ?case
  proof cases
    case 1
    with t ftp have "ancestry_chain L addr txid []" by (intro chain_end) simp_all
    moreover from 1 t ftp have "getParentAge_fuel (Suc m) L txid addr oldestUtxo =
        Some (Inr oldestUtxo)"
      by (cases m) simp_all
    ultimately show ?thesis unfolding d by (intro exI [of _ "[]"]) simp
  next
    case 2
    with ftp have ftp: "findTokenParent L txid addr = Inr (Obj p)" by simp
    show ?thesis
    proof (cases "truthy (tx_hash p)")
      case False
      with t ftp have "ancestry_chain L addr txid [p]" by (intro chain_stop)
      moreover from False t ftp have "getParentAge_fuel (Suc m) L txid addr oldestUtxo =
          Some (Inr (Obj p))"
        by (cases m) simp_all
      ultimately show ?thesis unfolding d by (intro exI [of _ "[p]"]) (simp add: deepest_Cons)
    next
      case True
      with acyclic t ftp have lt: "depth (tx_hash p) < depth txid" by blast
      from less.hyps [OF lt True, of "Obj p"] obtain ps where
        ch: "ancestry_chain L addr (tx_hash p) ps" and
        fu: "getParentAge_fuel (depth (tx_hash p)) L (tx_hash p) addr (Obj p) =
               Some (Inr (if ps = [] then Obj p else deepest ps))"
        by blast
      from lt d have "depth (tx_hash p) \<le> m" by simp
      with fu have "getParentAge_fuel m L (tx_hash p) addr (Obj p) =
               Some (Inr (if ps = [] then Obj p else deepest ps))"
        by (rule fuel_mono_le)
      with t ftp have "getParentAge_fuel (Suc m) L txid addr oldestUtxo =
          Some (Inr (deepest (p # ps)))"
        by (simp add: deepest_Cons)
      moreover from t ftp ch have "ancestry_chain L addr txid (p # ps)" by (rule chain_step)
      ultimately show ?thesis unfolding d by (intro exI [of _ "p # ps"]) simp
    qed
  qed
qed

text \<open>
  Claim C8. For every acyclic ancestry graph of depth \<open>K\<close>, the walk ends after at most
  \<open>K\<close> resolution steps and returns the deepest ancestor on the chain of resolved
  parents. The graph is the one \<^verbatim>\<open>findTokenParent\<close> induces: an edge from a
  transaction to the parent resolved for it. It is acyclic of depth \<open>K\<close> when a
  function \<open>depth\<close> gives every transaction a depth of at least 1 (the number of
  transactions on a longest chain from it, itself included), at most \<open>K\<close> at the start,
  and strictly smaller at the parent; every lookup succeeds. Then the walk makes at most
  \<open>K\<close> calls of \<^verbatim>\<open>findTokenParent\<close>, one for every transaction of the chain, and it
  returns the last parent of the chain (\<^verbatim>\<open>false\<close> when the start has no parent).
\<close>

theorem walk_on_acyclic_graph:
  assumes ok: "\<forall>t. truthy t \<longrightarrow> (\<exists>v. findTokenParent L t addr = Inr v)"
    and acyclic: "\<forall>t p. truthy t \<longrightarrow> findTokenParent L t addr = Inr (Obj p) \<longrightarrow>
                    truthy (tx_hash p) \<longrightarrow> depth (tx_hash p) < depth t"
    and pos: "\<forall>t. truthy t \<longrightarrow> 0 < depth t"
    and start: "truthy txid" and K: "depth txid \<le> K"
  shows "\<exists>ps. ancestry_chain L addr txid ps \<and>
           getParentAge_fuel K L txid addr (Prim (Bool False)) = Some (Inr (deepest ps)) \<and>
           getParentAge L txid addr = Some (Inr (deepest ps))"
proof -
  from walk_by_depth [OF ok acyclic pos start, of "Prim (Bool False)"] obtain ps where
    ch: "ancestry_chain L addr txid ps" and
    "getParentAge_fuel (depth txid) L txid addr (Prim (Bool False)) =
       Some (Inr (if ps = [] then Prim (Bool False) else deepest ps))"
    by blast
  then have "getParentAge_fuel (depth txid) L txid addr (Prim (Bool False)) =
       Some (Inr (deepest ps))"
    by (cases ps) simp_all
  then have fu: "getParentAge_fuel K L txid addr (Prim (Bool False)) = Some (Inr (deepest ps))"
    using K by (rule fuel_mono_le)
  then have "getParentAge L txid addr = Some (Inr (deepest ps))"
    unfolding getParentAge_def by (rule fuel_sound)
  with ch fu show ?thesis by blast
qed

lemma ledger_lookup:
  "findTokenParent ledger_lib t a =
     (if t = Str ''c'' then Inr (Obj ((entry ''b'' 700)\<lparr>tx_pos := Num (Fin 2)\<rparr>))
      else if t = Str ''b'' then Inr (Obj ((entry ''a'' 600)\<lparr>tx_pos := Num (Fin 0)\<rparr>))
      else Inr (Prim (Bool False)))"
proof -
  consider "t = Str ''c''" | "t = Str ''b''" | "t = Str ''a''"
    | "t \<noteq> Str ''c''" "t \<noteq> Str ''b''" "t \<noteq> Str ''a''"
    by blast
  then show ?thesis
  proof cases
    case 4
    then show ?thesis
      by (simp add: findTokenParent_def ledger_tx_def plain_tx_def)
  qed (simp_all add: parent_of_a parent_of_b parent_of_c)
qed

theorem walk_on_acyclic_graph_witness:
  "truthy (Str ''c'') \<and> ledger_depth (Str ''c'') \<le> 3 \<and>
   ancestry_chain ledger_lib (Str ''addr'') (Str ''c'')
     [(entry ''b'' 700)\<lparr>tx_pos := Num (Fin 2)\<rparr>, (entry ''a'' 600)\<lparr>tx_pos := Num (Fin 0)\<rparr>] \<and>
   getParentAge_fuel 3 ledger_lib (Str ''c'') (Str ''addr'') (Prim (Bool False)) =
     Some (Inr (Obj ((entry ''a'' 600)\<lparr>tx_pos := Num (Fin 0)\<rparr>))) \<and>
   getParentAge_fuel 2 ledger_lib (Str ''c'') (Str ''addr'') (Prim (Bool False)) = None \<and>
   (\<exists>ps. ancestry_chain ledger_lib (Str ''addr'') (Str ''c'') ps \<and>
      getParentAge_fuel 3 ledger_lib (Str ''c'') (Str ''addr'') (Prim (Bool False)) =
        Some (Inr (deepest ps)) \<and>
      getParentAge ledger_lib (Str ''c'') (Str ''addr'') = Some (Inr (deepest ps)))"
proof -
  have ok: "\<forall>t. truthy t \<longrightarrow> (\<exists>v. findTokenParent ledger_lib t (Str ''addr'') = Inr v)"
    by (simp add: ledger_lookup)
  have acyclic: "\<forall>t p. truthy t \<longrightarrow> findTokenParent ledger_lib t (Str ''addr'') = Inr (Obj p) \<longrightarrow>
      truthy (tx_hash p) \<longrightarrow> ledger_depth (tx_hash p) < ledger_depth t"
    by (auto simp: ledger_lookup ledger_depth_def entry_def split: if_splits)
  have pos: "\<forall>t. truthy t \<longrightarrow> 0 < ledger_depth t"
    by (simp add: ledger_depth_def)
  have start: "truthy (Str ''c'')" by simp
  have K: "ledger_depth (Str ''c'') \<le> 3" by (simp add: ledger_depth_def)
  have ida: "tx_hash ((entry ''a'' 600)\<lparr>tx_pos := Num (Fin 0)\<rparr>) = Str ''a''"
    and idb: "tx_hash ((entry ''b'' 700)\<lparr>tx_pos := Num (Fin 2)\<rparr>) = Str ''b''"
    by (simp_all add: entry_def)
  have c0: "ancestry_chain ledger_lib (Str ''addr'') (Str ''a'') []"
    by (rule chain_end) (simp_all add: parent_of_a)
  have c1: "ancestry_chain ledger_lib (Str ''addr'') (Str ''b'')
      [(entry ''a'' 600)\<lparr>tx_pos := Num (Fin 0)\<rparr>]"
    by (rule chain_step [where p = "(entry ''a'' 600)\<lparr>tx_pos := Num (Fin 0)\<rparr>"])
       (simp_all only: truthy.simps parent_of_b ida c0, simp)
  have ch: "ancestry_chain ledger_lib (Str ''addr'') (Str ''c'')
     [(entry ''b'' 700)\<lparr>tx_pos := Num (Fin 2)\<rparr>, (entry ''a'' 600)\<lparr>tx_pos := Num (Fin 0)\<rparr>]"
    by (rule chain_step [where p = "(entry ''b'' 700)\<lparr>tx_pos := Num (Fin 2)\<rparr>"])
       (simp_all only: truthy.simps parent_of_c idb c1, simp)
  have short: "getParentAge_fuel 2 ledger_lib (Str ''c'') (Str ''addr'') (Prim (Bool False)) = None"
    by (simp add: eval_nat_numeral parent_of_b parent_of_c entry_def)
  from walk_on_acyclic_graph [OF ok acyclic pos start K] start K ch short
  show ?thesis by (simp add: walk_from_c_fuel)
qed


section \<open>C2: the parent \<^verbatim>\<open>findTokenParent\<close> returns\<close>

lemma last_opt_simps [simp]:
  "last_opt [] = None"
  "last_opt (xs @ [x]) = Some x"
  by (simp_all add: last_opt_def)

lemma last_opt_filter_snoc:
  "last_opt (filter P (xs @ [x])) = (if P x then Some x else last_opt (filter P xs))"
  by simp

lemma last_opt_map: "last_opt (map f xs) = map_option f (last_opt xs)"
  by (cases xs rule: rev_cases) simp_all

lemma fp_inv_length: "fp_inv L c h0 P st \<Longrightarrow> length (fst st) = length h0"
  by (simp add: fp_inv_def)

lemma fp_inv_tx_hash:
  assumes "fp_inv L c h0 P st" and "j < length h0"
  shows "tx_hash (fst st ! j) = tx_hash (h0 ! j)"
proof -
  from assms have "fst st ! j =
      (case last_opt (filter (\<lambda>pj. snd pj = j) P) of
         None \<Rightarrow> h0 ! j
       | Some pj \<Rightarrow> (h0 ! j)\<lparr>tx_pos := vin_vout (fst pj)\<rparr>)"
    by (simp add: fp_inv_def)
  then show ?thesis by (simp split: option.splits)
qed

lemma fp_inv_matches:
  assumes "fp_inv L c h0 P st"
  shows "matches (fst st) t = matches h0 t"
proof -
  have "filter (\<lambda>j. strict_eq (tx_hash (fst st ! j)) t) [0..<length h0] =
        filter (\<lambda>j. strict_eq (tx_hash (h0 ! j)) t) [0..<length h0]"
    by (rule filter_cong) (simp_all add: fp_inv_tx_hash [OF assms])
  then show ?thesis by (simp add: matches_def fp_inv_length [OF assms])
qed

lemma matches_bound: "j \<in> set (matches h t) \<Longrightarrow> j < length h"
  by (simp add: matches_def)

text \<open>One pass of the inner loop keeps the invariant.\<close>

lemma fp_inv_step:
  assumes inv: "fp_inv L c h0 P st" and j: "j < length h0"
    and d: "getTxData L (tx_hash (fst st ! j)) = Inr (d # ds)"
  shows "fp_inv L c h0 (P @ [(pu, j)])
           ((fst st)[j := (fst st ! j)\<lparr>tx_pos := vin_vout pu\<rparr>],
            if valid_parent c d then Some j else snd st)"
proof -
  from inv have len: "length (fst st) = length h0" by (rule fp_inv_length)
  from inv have objs: "\<forall>k < length h0. fst st ! k =
      (case last_opt (filter (\<lambda>pj. snd pj = k) P) of
         None \<Rightarrow> h0 ! k
       | Some pj \<Rightarrow> (h0 ! k)\<lparr>tx_pos := vin_vout (fst pj)\<rparr>)"
    by (simp add: fp_inv_def)
  from inv have ref: "snd st = map_option snd (last_opt (filter (\<lambda>pj. accepted L c (h0 ! snd pj)) P))"
    by (simp add: fp_inv_def)
  from fp_inv_tx_hash [OF inv j] d have acc: "accepted L c (h0 ! j) = valid_parent c d"
    by (simp add: accepted_def)
  have upd: "(fst st ! j)\<lparr>tx_pos := vin_vout pu\<rparr> = (h0 ! j)\<lparr>tx_pos := vin_vout pu\<rparr>"
    using objs j by (simp split: option.splits)
  have "\<forall>k < length h0. ((fst st)[j := (fst st ! j)\<lparr>tx_pos := vin_vout pu\<rparr>]) ! k =
      (case last_opt (filter (\<lambda>pj. snd pj = k) (P @ [(pu, j)])) of
         None \<Rightarrow> h0 ! k
       | Some pj \<Rightarrow> (h0 ! k)\<lparr>tx_pos := vin_vout (fst pj)\<rparr>)"
  proof (intro allI impI)
    fix k assume k: "k < length h0"
    show "((fst st)[j := (fst st ! j)\<lparr>tx_pos := vin_vout pu\<rparr>]) ! k =
      (case last_opt (filter (\<lambda>pj. snd pj = k) (P @ [(pu, j)])) of
         None \<Rightarrow> h0 ! k
       | Some pj \<Rightarrow> (h0 ! k)\<lparr>tx_pos := vin_vout (fst pj)\<rparr>)"
    proof (cases "k = j")
      case True
      with j len upd show ?thesis by simp
    next
      case False
      with k objs show ?thesis by simp
    qed
  qed
  moreover have "(if valid_parent c d then Some j else snd st) =
      map_option snd (last_opt (filter (\<lambda>pj. accepted L c (h0 ! snd pj)) (P @ [(pu, j)])))"
    using ref acc by simp
  ultimately show ?thesis using len by (simp add: fp_inv_def)
qed

lemma match_loop_inv:
  assumes "match_loop L c pu js st = Inr st'" and "\<forall>j \<in> set js. j < length h0"
    and "fp_inv L c h0 P st"
  shows "fp_inv L c h0 (P @ map (\<lambda>j. (pu, j)) js) st'"
  using assms
proof (induction js arbitrary: st P)
  case Nil
  then show ?case by simp
next
  case (Cons j js)
  from Cons.prems(1) obtain thisTxData where
    f: "getTxData L (tx_hash (fst st ! j)) = Inr thisTxData"
    by (cases "getTxData L (tx_hash (fst st ! j))") simp_all
  with Cons.prems(1) obtain d ds where c: "thisTxData = d # ds"
    by (cases thisTxData) simp_all
  let ?st1 = "((fst st)[j := (fst st ! j)\<lparr>tx_pos := vin_vout pu\<rparr>],
               if valid_parent c d then Some j else snd st)"
  from Cons.prems(1) f c have run: "match_loop L c pu js ?st1 = Inr st'" by simp
  from Cons.prems(2) have j: "j < length h0" and js: "\<forall>j \<in> set js. j < length h0" by simp_all
  from f c have "getTxData L (tx_hash (fst st ! j)) = Inr (d # ds)" by simp
  with Cons.prems(3) j have "fp_inv L c h0 (P @ [(pu, j)]) ?st1" by (rule fp_inv_step)
  with run js have "fp_inv L c h0 ((P @ [(pu, j)]) @ map (\<lambda>j. (pu, j)) js) st'"
    by (rule Cons.IH)
  then show ?case by simp
qed

lemma parent_loop_inv:
  assumes "parent_loop L c pus st = Inr st'" and "fp_inv L c h0 P st"
  shows "fp_inv L c h0 (P @ index_pairs h0 pus) st'"
  using assms
proof (induction pus arbitrary: st P)
  case Nil
  then show ?case by (simp add: index_pairs_def)
next
  case (Cons pu pus)
  from Cons.prems(2) have m: "matches (fst st) (vin_txid pu) = matches h0 (vin_txid pu)"
    by (rule fp_inv_matches)
  from Cons.prems(1) m obtain st1 where
    inner: "match_loop L c pu (matches h0 (vin_txid pu)) st = Inr st1" and
    rest: "parent_loop L c pus st1 = Inr st'"
    by (cases "match_loop L c pu (matches h0 (vin_txid pu)) st") simp_all
  have "\<forall>j \<in> set (matches h0 (vin_txid pu)). j < length h0"
    by (simp add: matches_bound)
  with inner have "fp_inv L c h0 (P @ map (\<lambda>j. (pu, j)) (matches h0 (vin_txid pu))) st1"
    using Cons.prems(2) by (rule match_loop_inv)
  with rest have "fp_inv L c h0
      ((P @ map (\<lambda>j. (pu, j)) (matches h0 (vin_txid pu))) @ index_pairs h0 pus) st'"
    by (rule Cons.IH)
  then show ?case by (simp add: index_pairs_def)
qed

text \<open>
  Acceptance depends on the history object only, so the object of the last accepted
  pair was last matched with the candidate of that pair.
\<close>

lemma last_accepted_is_last_match:
  assumes "last_opt (filter (\<lambda>pj. A (snd pj)) P) = Some (pu, j)"
  shows "last_opt (filter (\<lambda>pj. snd pj = j) P) = Some (pu, j)"
  using assms
proof (induction P rule: rev_induct)
  case Nil
  then show ?case by simp
next
  case (snoc x P)
  show ?case
  proof (cases "A (snd x)")
    case True
    with snoc.prems have "x = (pu, j)" by simp
    then show ?thesis by simp
  next
    case False
    with snoc.prems have prev: "last_opt (filter (\<lambda>pj. A (snd pj)) P) = Some (pu, j)" by simp
    then have "filter (\<lambda>pj. A (snd pj)) P \<noteq> []" by auto
    then have "(pu, j) \<in> set (filter (\<lambda>pj. A (snd pj)) P)"
      using prev by (cases "filter (\<lambda>pj. A (snd pj)) P" rule: rev_cases) auto
    then have "A j" by simp
    with False have "snd x \<noteq> j" by auto
    with snoc.IH [OF prev] show ?thesis by simp
  qed
qed

lemma index_pairs_bound: "pj \<in> set (index_pairs h pus) \<Longrightarrow> snd pj < length h"
  by (auto simp: index_pairs_def dest: matches_bound)

lemma nth_matches: "map (\<lambda>j. h ! j) (matches h t) = filter (\<lambda>m. strict_eq (tx_hash m) t) h"
proof -
  have "filter (\<lambda>m. strict_eq (tx_hash m) t) (map (\<lambda>j. h ! j) [0..<length h]) =
        map (\<lambda>j. h ! j) (filter (\<lambda>j. strict_eq (tx_hash (h ! j)) t) [0..<length h])"
    by (simp add: filter_map comp_def)
  then show ?thesis by (simp add: matches_def map_nth)
qed

lemma candidate_matches_index:
  "candidate_matches h pus = map (\<lambda>pj. (fst pj, h ! snd pj)) (index_pairs h pus)"
proof (induction pus)
  case Nil
  show ?case by (simp add: candidate_matches_def index_pairs_def)
next
  case (Cons pu pus)
  have "map (\<lambda>m. (pu, m)) (filter (\<lambda>m. strict_eq (tx_hash m) (vin_txid pu)) h) =
        map (\<lambda>pj. (fst pj, h ! snd pj)) (map (\<lambda>j. (pu, j)) (matches h (vin_txid pu)))"
    by (simp add: nth_matches [symmetric] comp_def)
  with Cons show ?case by (simp add: candidate_matches_def index_pairs_def)
qed

lemma last_accepted_index:
  "last_accepted L c h pus =
     (case last_opt (filter (\<lambda>pj. accepted L c (h ! snd pj)) (index_pairs h pus)) of
        None \<Rightarrow> Prim (Bool False)
      | Some pj \<Rightarrow> Obj ((h ! snd pj)\<lparr>tx_pos := vin_vout (fst pj)\<rparr>))"
proof -
  have "filter (\<lambda>pm. accepted L c (snd pm)) (candidate_matches h pus) =
        map (\<lambda>pj. (fst pj, h ! snd pj)) (filter (\<lambda>pj. accepted L c (h ! snd pj)) (index_pairs h pus))"
    by (simp add: candidate_matches_index filter_map comp_def)
  then have "last_accepted L c h pus =
      (case last_opt (map (\<lambda>pj. (fst pj, h ! snd pj))
              (filter (\<lambda>pj. accepted L c (h ! snd pj)) (index_pairs h pus))) of
         None \<Rightarrow> Prim (Bool False)
       | Some pm \<Rightarrow> Obj ((snd pm)\<lparr>tx_pos := vin_vout (fst pm)\<rparr>))"
    by (simp add: last_accepted_def last_opt_def split: list.splits)
  then show ?thesis by (simp add: last_opt_map split: option.splits)
qed

lemma parent_loop_result:
  assumes "parent_loop L c pus (h0, None) = Inr st"
  shows "(case snd st of None \<Rightarrow> Prim (Bool False) | Some j \<Rightarrow> Obj (fst st ! j)) =
           last_accepted L c h0 pus"
proof -
  have "fp_inv L c h0 [] (h0, None)" by (simp add: fp_inv_def)
  with assms have "fp_inv L c h0 ([] @ index_pairs h0 pus) st" by (rule parent_loop_inv)
  then have inv: "fp_inv L c h0 (index_pairs h0 pus) st" by simp
  let ?acc = "last_opt (filter (\<lambda>pj. accepted L c (h0 ! snd pj)) (index_pairs h0 pus))"
  from inv have ref: "snd st = map_option snd ?acc" by (simp add: fp_inv_def)
  show ?thesis
  proof (cases ?acc)
    case None
    with ref show ?thesis by (simp add: last_accepted_index)
  next
    case (Some pj)
    obtain pu j where pj: "pj = (pu, j)" by (cases pj)
    from Some pj have "filter (\<lambda>pj. accepted L c (h0 ! snd pj)) (index_pairs h0 pus) \<noteq> []"
      by auto
    with Some pj have "(pu, j) \<in> set (filter (\<lambda>pj. accepted L c (h0 ! snd pj)) (index_pairs h0 pus))"
      by (cases "filter (\<lambda>pj. accepted L c (h0 ! snd pj)) (index_pairs h0 pus)" rule: rev_cases) auto
    then have "(pu, j) \<in> set (index_pairs h0 pus)" by simp
    then have j: "j < length h0" by (auto dest: index_pairs_bound)
    from Some pj have "last_opt (filter (\<lambda>pj. snd pj = j) (index_pairs h0 pus)) = Some (pu, j)"
      by (intro last_accepted_is_last_match [where A = "\<lambda>k. accepted L c (h0 ! k)"]) simp
    with inv j have "fst st ! j = (h0 ! j)\<lparr>tx_pos := vin_vout pu\<rparr>"
      by (simp add: fp_inv_def)
    with ref Some pj show ?thesis by (simp add: last_accepted_index)
  qed
qed

text \<open>
  Claim C2. For every transaction id and address, whenever \<^verbatim>\<open>findTokenParent\<close>
  returns, what it returns is \<open>last_accepted\<close> of the transaction's token id, the
  history of the address and the inputs of the transaction: a pair of a candidate input
  and a history entry with the candidate's transaction id is accepted exactly when the
  entry's fetched transaction data has the child's token id and is flagged as a valid
  token transaction; the result is the entry of the last accepted pair in the order of
  evaluation, with the candidate's output index (not the first one, and not the one of
  the least height), and \<^verbatim>\<open>false\<close> when no pair is accepted.
\<close>

theorem parent_is_last_accepted:
  assumes "findTokenParent L txid addr = Inr parent"
  shows "\<exists>txData rest txHistory. getTxData L txid = Inr (txData # rest) \<and>
           getTransactions L addr = Inr txHistory \<and>
           parent = last_accepted L (tx_tokenId txData) txHistory (vin txData)"
proof -
  from assms obtain txData rest txHistory st where
    tx: "getTxData L txid = Inr (txData # rest)" and
    hist: "getTransactions L addr = Inr txHistory" and
    loop: "parent_loop L (tx_tokenId txData) (vin txData) (txHistory, None) = Inr st" and
    res: "parent = (case snd st of None \<Rightarrow> Prim (Bool False) | Some j \<Rightarrow> Obj (fst st ! j))"
    by (rule findTokenParent_InrE)
  from loop res have "parent = last_accepted L (tx_tokenId txData) txHistory (vin txData)"
    by (simp add: parent_loop_result)
  with tx hist show ?thesis by blast
qed

theorem parent_is_last_accepted_witness:
  "findTokenParent ledger_lib (Str ''c'') (Str ''addr'') =
     Inr (Obj ((entry ''b'' 700)\<lparr>tx_pos := Num (Fin 2)\<rparr>)) \<and>
   getTxData ledger_lib (Str ''c'') = Inr [token_tx [spend ''a'' 1, spend ''b'' 2]] \<and>
   getTransactions ledger_lib (Str ''addr'') = Inr [entry ''b'' 700, entry ''a'' 600] \<and>
   filter (\<lambda>pm. accepted ledger_lib (Str ''T'') (snd pm))
     (candidate_matches [entry ''b'' 700, entry ''a'' 600] [spend ''a'' 1, spend ''b'' 2]) =
     [(spend ''a'' 1, entry ''a'' 600), (spend ''b'' 2, entry ''b'' 700)] \<and>
   last_accepted ledger_lib (Str ''T'') [entry ''b'' 700, entry ''a'' 600]
     [spend ''a'' 1, spend ''b'' 2] = Obj ((entry ''b'' 700)\<lparr>tx_pos := Num (Fin 2)\<rparr>)"
proof -
  have tx: "getTxData ledger_lib (Str ''c'') = Inr [token_tx [spend ''a'' 1, spend ''b'' 2]]"
    by (simp add: ledger_tx_def)
  have hist: "getTransactions ledger_lib (Str ''addr'') = Inr [entry ''b'' 700, entry ''a'' 600]"
    by simp
  have acc: "filter (\<lambda>pm. accepted ledger_lib (Str ''T'') (snd pm))
     (candidate_matches [entry ''b'' 700, entry ''a'' 600] [spend ''a'' 1, spend ''b'' 2]) =
     [(spend ''a'' 1, entry ''a'' 600), (spend ''b'' 2, entry ''b'' 700)]"
    by (simp add: candidate_matches_def accepted_def ledger_tx_def token_tx_def spend_def
        entry_def blank_def strict_eq_def valid_parent_def)
  from parent_is_last_accepted [OF parent_of_c [of "Str ''addr''"]] tx hist
  have "Obj ((entry ''b'' 700)\<lparr>tx_pos := Num (Fin 2)\<rparr>) =
      last_accepted ledger_lib (Str ''T'') [entry ''b'' 700, entry ''a'' 600]
        [spend ''a'' 1, spend ''b'' 2]"
    by (simp add: token_tx_def)
  with parent_of_c [of "Str ''addr''"] tx hist acc show ?thesis by simp
qed


end
